theory Spec2Isabelle
  imports Complex_Main "HOL-Library.AList" "HOL-Library.Log_Nat" "HOL-Library.Word"
begin

section \<open>Strings\<close>

text \<open>
  A JavaScript string is a sequence of UTF-16 code units. \<open>str\<close> gives the string that a
  literal of the source denotes; the literals of the services are ASCII, one code unit for
  each character.
\<close>

type_synonym jsstring = "16 word list"

definition str :: "string \<Rightarrow> jsstring" where
  "str s = map of_char s"

text \<open>
  \<^verbatim>\<open>String.prototype.trim\<close> removes the white space and the line terminators at both
  ends of a string: the code units U+0009 to U+000D, U+0020, U+00A0, U+1680, U+2000 to
  U+200A, U+2028, U+2029, U+202F, U+205F, U+3000 and U+FEFF. All of them lie in the basic
  plane, so no surrogate pair is involved.
\<close>

definition is_space :: "16 word \<Rightarrow> bool" where
  "is_space c =
     (c \<in> set [0x0009, 0x000A, 0x000B, 0x000C, 0x000D, 0x0020, 0x00A0, 0x1680,
               0x2000, 0x2001, 0x2002, 0x2003, 0x2004, 0x2005, 0x2006, 0x2007,
               0x2008, 0x2009, 0x200A, 0x2028, 0x2029, 0x202F, 0x205F, 0x3000, 0xFEFF])"

definition trim :: "jsstring \<Rightarrow> jsstring" where
  "trim s = rev (dropWhile is_space (rev (dropWhile is_space s)))"

section \<open>Request values and exceptions\<close>

text \<open>
  The services of PollingApp (\<^verbatim>\<open>PollingApp/src/polls/polls.service.ts\<close>) receive request
  bodies whose fields are typed by the DTO classes but are arbitrary JSON values at run
  time; the guards of \<^verbatim>\<open>create\<close> and \<^verbatim>\<open>vote\<close> test them with \<^verbatim>\<open>!x\<close>,
  \<^verbatim>\<open>typeof x !== 'string'\<close> and \<^verbatim>\<open>Array.isArray(x)\<close>.
\<close>

datatype jsval =
    JUndefined
  | JNull
  | JBool bool
  | JNum rat
  | JStr jsstring
  | JArr "jsval list"
  | JObj

fun truthy :: "jsval \<Rightarrow> bool" where
  "truthy JUndefined = False"
| "truthy JNull = False"
| "truthy (JBool b) = b"
| "truthy (JNum n) = (n \<noteq> 0)"
| "truthy (JStr s) = (s \<noteq> [])"
| "truthy (JArr xs) = True"
| "truthy JObj = True"

text \<open>
  The exceptions the services throw. \<^verbatim>\<open>TypeError\<close> is what the runtime raises when
  \<^verbatim>\<open>.trim()\<close> is called on a value that has no such method.
\<close>

datatype exception =
    NotFoundException jsstring
  | BadRequestException jsstring
  | TypeError

text \<open>\<^verbatim>\<open>!x || typeof x !== 'string'\<close> is false exactly for a non-empty string.\<close>

fun required_string :: "jsval \<Rightarrow> jsstring option" where
  "required_string (JStr s) = (if s = [] then None else Some s)"
| "required_string _ = None"

subsection \<open>String helpers\<close>

text \<open>\<^verbatim>\<open>o.trim()\<close> on a run-time value: a \<^verbatim>\<open>TypeError\<close> unless it is a string.\<close>

fun trim_val :: "jsval \<Rightarrow> jsstring option" where
  "trim_val (JStr s) = Some (trim s)"
| "trim_val _ = None"

text \<open>\<^verbatim>\<open>options.map((o) => o.trim())\<close>; \<open>None\<close> when some call throws.\<close>

fun trim_all :: "jsval list \<Rightarrow> jsstring list option" where
  "trim_all [] = Some []"
| "trim_all (x # xs) =
     (case trim_val x of
        None \<Rightarrow> None
      | Some s \<Rightarrow> (case trim_all xs of None \<Rightarrow> None | Some ss \<Rightarrow> Some (s # ss)))"

text \<open>\<^verbatim>\<open>category?.trim() || 'General'\<close>; \<open>None\<close> when the call throws.\<close>

fun category_or_general :: "jsval \<Rightarrow> jsstring option" where
  "category_or_general JUndefined = Some (str ''General'')"
| "category_or_general JNull = Some (str ''General'')"
| "category_or_general (JStr s) = Some (if trim s = [] then str ''General'' else trim s)"
| "category_or_general _ = None"

text \<open>\<^verbatim>\<open>xs.join(sep)\<close>\<close>

fun join :: "jsstring \<Rightarrow> jsstring list \<Rightarrow> jsstring" where
  "join sep [] = []"
| "join sep [x] = x"
| "join sep (x # y # ys) = x @ sep @ join sep (y # ys)"

section \<open>Stored records and the collection store\<close>

text \<open>
  A poll as \<^verbatim>\<open>create\<close> stores it, with the fields \<^verbatim>\<open>close\<close> adds. \<open>oid_p\<close> is the
  store's own \<^verbatim>\<open>_id\<close>, \<open>id_p\<close> the application's \<^verbatim>\<open>id\<close>. \<open>category\<close> is optional:
  polls written by PollsAPI have none.
\<close>

record poll =
  oid_p :: nat
  id_p :: jsstring
  question :: jsstring
  options :: "jsstring list"
  category :: "jsstring option"
  created_at :: jsstring
  expires_at :: jsval
  status :: jsstring
  closed_at :: "jsstring option"

record vote =
  oid_v :: nat
  id_v :: jsstring
  poll_id :: jsstring
  voter_id :: jsstring
  option :: jsstring
  voted_at :: jsstring

text \<open>
  Modelled from the spec: the collection store behind \<^verbatim>\<open>NexaClient\<close> (package
  \<^verbatim>\<open>nexaclient\<close>, an external collaborator whose code is not part of the repository). The
  spec describes it as two named collections, "polls" and "votes", with a generic
  filter-query / insert / update / delete interface. A collection is the list of its records
  in store order; \<^verbatim>\<open>query(coll, filter, {limit})\<close> returns the first \<open>limit\<close> records
  matching the filter; \<^verbatim>\<open>create\<close> appends a record under a fresh \<^verbatim>\<open>_id\<close>;
  \<^verbatim>\<open>update(coll, _id, fields)\<close> overwrites fields of the record with that \<^verbatim>\<open>_id\<close>;
  \<^verbatim>\<open>delete(coll, _id)\<close> removes it.
\<close>

record db =
  polls :: "poll list"
  votes :: "vote list"
  next_oid :: nat

definition query :: "'a list \<Rightarrow> ('a \<Rightarrow> bool) \<Rightarrow> nat \<Rightarrow> 'a list" where
  "query coll matches limit = take limit (filter matches coll)"

definition create_poll :: "db \<Rightarrow> poll \<Rightarrow> db" where
  "create_poll d p =
     d\<lparr>polls := polls d @ [p\<lparr>oid_p := next_oid d\<rparr>], next_oid := Suc (next_oid d)\<rparr>"

definition create_vote :: "db \<Rightarrow> vote \<Rightarrow> db" where
  "create_vote d v =
     d\<lparr>votes := votes d @ [v\<lparr>oid_v := next_oid d\<rparr>], next_oid := Suc (next_oid d)\<rparr>"

definition update_poll :: "db \<Rightarrow> nat \<Rightarrow> (poll \<Rightarrow> poll) \<Rightarrow> db" where
  "update_poll d oid f = d\<lparr>polls := map (\<lambda>p. if oid_p p = oid then f p else p) (polls d)\<rparr>"

definition delete_poll :: "db \<Rightarrow> nat \<Rightarrow> db" where
  "delete_poll d oid = d\<lparr>polls := filter (\<lambda>p. oid_p p \<noteq> oid) (polls d)\<rparr>"

definition delete_vote :: "db \<Rightarrow> nat \<Rightarrow> db" where
  "delete_vote d oid = d\<lparr>votes := filter (\<lambda>v. oid_v v \<noteq> oid) (votes d)\<rparr>"

text \<open>The two Vote Ledger reads the spec names, without a limit.\<close>

definition findByPoll :: "db \<Rightarrow> jsstring \<Rightarrow> vote list" where
  "findByPoll d pid = filter (\<lambda>v. poll_id v = pid) (votes d)"

definition findByPollAndVoter :: "db \<Rightarrow> jsstring \<Rightarrow> jsstring \<Rightarrow> vote list" where
  "findByPollAndVoter d pid vid = filter (\<lambda>v. poll_id v = pid \<and> voter_id v = vid) (votes d)"

section \<open>Sets and objects\<close>

text \<open>
  A JavaScript \<^verbatim>\<open>Set\<close> keeps its members in insertion order: the list of distinct
  members.
\<close>

definition Set_add :: "'a list \<Rightarrow> 'a \<Rightarrow> 'a list" where
  "Set_add s x = (if x \<in> set s then s else s @ [x])"

definition new_Set :: "'a list \<Rightarrow> 'a list" where
  "new_Set xs = fold (\<lambda>x s. Set_add s x) xs []"

text \<open>
  The services keep their counters in objects created by \<^verbatim>\<open>{}\<close>, typed
  \<^verbatim>\<open>Record<string, number>\<close>. Such an object is the association list of its own
  properties, in the order of their first assignment (the runtime enumerates keys that are
  array indices first; no statement below depends on the order). Its prototype is
  \<^verbatim>\<open>Object.prototype\<close>, whose members it inherits:
  \<^item> \<^verbatim>\<open>obj[k]\<close> is the own property \<open>k\<close> when there is one, the inherited member when
    \<open>k\<close> names one (a function or, for \<^verbatim>\<open>__proto__\<close>, the prototype object; never
    \<^verbatim>\<open>undefined\<close>), and \<^verbatim>\<open>undefined\<close> otherwise;
  \<^item> \<^verbatim>\<open>obj[k] = v\<close> creates or overwrites the own property \<open>k\<close>, except for the key
    \<^verbatim>\<open>__proto__\<close>: that assignment calls the inherited setter, which ignores a value that
    is neither an object nor \<^verbatim>\<open>null\<close>.
  A counter holds a count, or \<^verbatim>\<open>NaN\<close>, or a string: what \<^verbatim>\<open>++\<close> and \<^verbatim>\<open>+ 1\<close> make of
  an inherited member.
\<close>

definition Object_prototype :: "jsstring list" where
  "Object_prototype =
     [str ''constructor'', str ''__defineGetter__'', str ''__defineSetter__'', str ''hasOwnProperty'',
      str ''__lookupGetter__'', str ''__lookupSetter__'', str ''isPrototypeOf'', str ''propertyIsEnumerable'',
      str ''toString'', str ''valueOf'', str ''__proto__'', str ''toLocaleString'']"

datatype 'v lookup = Own 'v | Inherited | Undefined

datatype cell = Count nat | NaN_cell | Str_cell

definition obj_get :: "(jsstring \<times> 'v) list \<Rightarrow> jsstring \<Rightarrow> 'v lookup" where
  "obj_get obj k =
     (case map_of obj k of
        Some v \<Rightarrow> Own v
      | None \<Rightarrow> if k \<in> set Object_prototype then Inherited else Undefined)"

definition obj_set :: "(jsstring \<times> 'v) list \<Rightarrow> jsstring \<Rightarrow> 'v \<Rightarrow> (jsstring \<times> 'v) list" where
  "obj_set obj k v = (if k = str ''__proto__'' then obj else AList.update k v obj)"

section \<open>JavaScript numbers\<close>

text \<open>
  The percentage is computed in double precision:
  \<^verbatim>\<open>Math.round((voteCounts[opt] / totalVotes) * 100)\<close>. A finite double is modelled by the
  rational it denotes. \<open>fl\<close> rounds a rational to the nearest double (53 significant bits,
  ties to even), for magnitudes in the normal range of the format; \<open>expo x\<close> is
  \<open>\<lfloor>log\<^sub>2 x\<rfloor>\<close> for positive \<open>x\<close>.
\<close>

datatype jsnum = Num rat | NaN | Infinity

definition expo :: "rat \<Rightarrow> int" where
  "expo x =
     (let e = bitlen (fst (quotient_of x)) - bitlen (snd (quotient_of x))
      in if 2 powi e \<le> x then e else e - 1)"

definition round_even :: "rat \<Rightarrow> int" where
  "round_even y =
     (let n = \<lfloor>y\<rfloor>; r = y - of_int n
      in if r < 1 / 2 then n
         else if 1 / 2 < r then n + 1
         else if even n then n else n + 1)"

definition fl :: "rat \<Rightarrow> rat" where
  "fl x =
     (if x = 0 then 0
      else let e = expo \<bar>x\<bar> - 52
           in sgn x * of_int (round_even (\<bar>x\<bar> / 2 powi e)) * 2 powi e)"

text \<open>
  \<^verbatim>\<open>obj[k] / t\<close> for a counter and a length: the quotient of a count, and \<^verbatim>\<open>NaN\<close> for
  everything else (\<^verbatim>\<open>undefined\<close>, \<^verbatim>\<open>NaN\<close>, a string that is no numeral, a function, an
  object). Then \<^verbatim>\<open>x * 100\<close>, and \<^verbatim>\<open>Math.round(x)\<close>, which rounds ties towards
  \<open>+\<infinity>\<close>.
\<close>

fun js_div :: "cell lookup \<Rightarrow> nat \<Rightarrow> jsnum" where
  "js_div (Own (Count c)) t =
     (if t = 0 then (if c = 0 then NaN else Infinity)
      else Num (fl (of_nat c / of_nat t)))"
| "js_div _ t = NaN"

fun js_mul :: "jsnum \<Rightarrow> rat \<Rightarrow> jsnum" where
  "js_mul (Num x) k = Num (fl (x * k))"
| "js_mul NaN k = NaN"
| "js_mul Infinity k = (if k = 0 then NaN else Infinity)"

fun Math_round :: "jsnum \<Rightarrow> jsnum" where
  "Math_round (Num x) = Num (of_int \<lfloor>x + 1 / 2\<rfloor>)"
| "Math_round NaN = NaN"
| "Math_round Infinity = Infinity"

section \<open>PollsService\<close>

subsection \<open>Tallying\<close>

text \<open>
  The same lines appear in \<^verbatim>\<open>findAll\<close>, \<^verbatim>\<open>findOne\<close> and \<^verbatim>\<open>vote\<close>:
  \<^verbatim>\<open>
  const voteCounts: Record<string, number> = {};
  poll.options.forEach((opt: string) => (voteCounts[opt] = 0));
  votes.forEach((vote: any) => {
    if (voteCounts[vote.option] !== undefined) {
      voteCounts[vote.option]++;
    }
  });
  \<close>
\<close>

text \<open>\<^verbatim>\<open>x++\<close> stores \<^verbatim>\<open>Number(x) + 1\<close>.\<close>

fun increment :: "cell lookup \<Rightarrow> cell" where
  "increment (Own (Count n)) = Count (n + 1)"
| "increment _ = NaN_cell"

definition count_vote :: "vote \<Rightarrow> (jsstring \<times> cell) list \<Rightarrow> (jsstring \<times> cell) list" where
  "count_vote v vc =
     (case obj_get vc (option v) of
        Undefined \<Rightarrow> vc
      | _ \<Rightarrow> obj_set vc (option v) (increment (obj_get vc (option v))))"

definition voteCounts :: "jsstring list \<Rightarrow> vote list \<Rightarrow> (jsstring \<times> cell) list" where
  "voteCounts opts vs = fold count_vote vs (fold (\<lambda>opt vc. obj_set vc opt (Count 0)) opts [])"

text \<open>
  \<^verbatim>\<open>
  poll.options.forEach((opt: string) => {
    votePercentages[opt] = totalVotes > 0 ? Math.round((voteCounts[opt] / totalVotes) * 100) : 0;
  });
  \<close>
\<close>

definition percentage :: "(jsstring \<times> cell) list \<Rightarrow> nat \<Rightarrow> jsstring \<Rightarrow> jsnum" where
  "percentage vc totalVotes opt =
     (if totalVotes > 0 then Math_round (js_mul (js_div (obj_get vc opt) totalVotes) 100)
      else Num 0)"

definition votePercentages ::
  "jsstring list \<Rightarrow> (jsstring \<times> cell) list \<Rightarrow> nat \<Rightarrow> (jsstring \<times> jsnum) list" where
  "votePercentages opts vc totalVotes =
     fold (\<lambda>opt vp. obj_set vp opt (percentage vc totalVotes opt)) opts []"

subsection \<open>Responses\<close>

record poll_counts =
  the_poll :: poll
  total_votes :: nat
  vote_counts :: "(jsstring \<times> cell) list"

record poll_results = poll_counts +
  vote_percentages :: "(jsstring \<times> jsnum) list"

record vote_response =
  vote_poll_id :: jsstring
  vote_voter_id :: jsstring
  vote_option :: jsstring
  results_total_votes :: nat
  results_vote_counts :: "(jsstring \<times> cell) list"


record remove_response =
  deleted_poll_id :: jsstring
  votes_removed :: nat

subsection \<open>Reading polls\<close>

definition with_counts :: "db \<Rightarrow> poll \<Rightarrow> poll_counts" where
  "with_counts d p =
     (let vs = query (votes d) (\<lambda>v. poll_id v = id_p p) 1000
      in \<lparr>the_poll = p, total_votes = length vs, vote_counts = voteCounts (options p) vs\<rparr>)"

definition findAll :: "db \<Rightarrow> poll_counts list" where
  "findAll d = map (with_counts d) (query (polls d) (\<lambda>p. True) 100)"

definition findOne :: "db \<Rightarrow> jsstring \<Rightarrow> exception + poll_results" where
  "findOne d i =
     (case query (polls d) (\<lambda>p. id_p p = i) 1 of
        [] \<Rightarrow> Inl (NotFoundException (str ''Poll not found''))
      | p # _ \<Rightarrow>
          let vs = query (votes d) (\<lambda>v. poll_id v = i) 1000;
              vc = voteCounts (options p) vs;
              totalVotes = length vs
          in Inr \<lparr>the_poll = p, total_votes = totalVotes, vote_counts = vc,
                  vote_percentages = votePercentages (options p) vc totalVotes\<rparr>)"

subsection \<open>Creating a poll\<close>

text \<open>
  \<open>new_id\<close> stands for the result of \<^verbatim>\<open>generateId()\<close> and \<open>now\<close> for
  \<^verbatim>\<open>new Date().toISOString()\<close>. The response repeats the stored poll with a zero tally
  built by \<^verbatim>\<open>Object.fromEntries\<close>, which defines own properties under every key.
\<close>

definition create ::
  "jsstring \<Rightarrow> jsstring \<Rightarrow> db \<Rightarrow> jsval \<Rightarrow> jsval \<Rightarrow> jsval \<Rightarrow> jsval \<Rightarrow> exception + (poll_counts \<times> db)" where
  "create new_id now d question_in options_in category_in expires_in =
     (case required_string question_in of
        None \<Rightarrow> Inl (BadRequestException (str ''Question is required''))
      | Some q \<Rightarrow>
         (case options_in of
            JArr os \<Rightarrow>
              if length os < 2 then Inl (BadRequestException (str ''At least 2 options are required''))
              else if length os > 10 then Inl (BadRequestException (str ''Maximum 10 options allowed''))
              else
                (case trim_all os of
                   None \<Rightarrow> Inl TypeError
                 | Some opts \<Rightarrow>
                    (case category_or_general category_in of
                       None \<Rightarrow> Inl TypeError
                     | Some cat \<Rightarrow>
                        let p = \<lparr>oid_p = 0, id_p = new_id, question = trim q, options = opts,
                                  category = Some cat, created_at = now,
                                  expires_at = (if truthy expires_in then expires_in else JNull),
                                  status = str ''active'', closed_at = None\<rparr>
                        in Inr (\<lparr>the_poll = p, total_votes = 0,
                                  vote_counts = fold (\<lambda>opt vc. AList.update opt (Count 0) vc) opts []\<rparr>,
                                create_poll d p)))
          | _ \<Rightarrow> Inl (BadRequestException (str ''At least 2 options are required''))))"

subsection \<open>Categories\<close>






subsection \<open>Voting\<close>

definition vote ::
  "jsstring \<Rightarrow> jsstring \<Rightarrow> db \<Rightarrow> jsstring \<Rightarrow> jsval \<Rightarrow> jsval \<Rightarrow> exception + (vote_response \<times> db)" where
  "vote new_id now d i voter_in option_in =
     (case required_string voter_in of
        None \<Rightarrow> Inl (BadRequestException (str ''voter_id is required''))
      | Some voter \<Rightarrow>
     (case required_string option_in of
        None \<Rightarrow> Inl (BadRequestException (str ''option is required''))
      | Some opt \<Rightarrow>
     (case query (polls d) (\<lambda>p. id_p p = i) 1 of
        [] \<Rightarrow> Inl (NotFoundException (str ''Poll not found''))
      | p # _ \<Rightarrow>
          if status p \<noteq> str ''active'' then Inl (BadRequestException (str ''Poll is closed''))
          else if opt \<notin> set (options p) then
            Inl (BadRequestException
                   (str ''Invalid option. Valid options: '' @ join (str '', '') (options p)))
          else
            (case query (votes d) (\<lambda>v. poll_id v = i \<and> voter_id v = voter) 1 of
               e # _ \<Rightarrow> Inl (BadRequestException (str ''Already voted: '' @ option e))
             | [] \<Rightarrow>
                 let d' = create_vote d \<lparr>oid_v = 0, id_v = new_id, poll_id = i,
                                          voter_id = voter, option = opt, voted_at = now\<rparr>;
                     allVotes = query (votes d') (\<lambda>v. poll_id v = i) 1000
                 in Inr (\<lparr>vote_poll_id = i, vote_voter_id = voter, vote_option = opt,
                           results_total_votes = length allVotes,
                           results_vote_counts = voteCounts (options p) allVotes\<rparr>, d')))))"

text \<open>
  A sequence of vote requests handled one after the other. A request that throws has
  written nothing, so the store is the one before it.
\<close>

record vote_request =
  req_new_id :: jsstring
  req_now :: jsstring
  req_poll :: jsstring
  req_voter :: jsval
  req_option :: jsval

definition vote_step :: "db \<Rightarrow> vote_request \<Rightarrow> db" where
  "vote_step d r =
     (case vote (req_new_id r) (req_now r) d (req_poll r) (req_voter r) (req_option r) of
        Inl e \<Rightarrow> d
      | Inr (resp, d') \<Rightarrow> d')"

definition vote_all :: "db \<Rightarrow> vote_request list \<Rightarrow> db" where
  "vote_all d rs = foldl vote_step d rs"

subsection \<open>Closing and removing a poll\<close>

definition close :: "jsstring \<Rightarrow> db \<Rightarrow> jsstring \<Rightarrow> exception + (jsstring \<times> db)" where
  "close now d i =
     (case query (polls d) (\<lambda>p. id_p p = i) 1 of
        [] \<Rightarrow> Inl (NotFoundException (str ''Poll not found''))
      | p # _ \<Rightarrow>
          Inr (i, update_poll d (oid_p p) (\<lambda>r. r\<lparr>status := str ''closed'', closed_at := Some now\<rparr>)))"

definition remove :: "db \<Rightarrow> jsstring \<Rightarrow> exception + (remove_response \<times> db)" where
  "remove d i =
     (case query (polls d) (\<lambda>p. id_p p = i) 1 of
        [] \<Rightarrow> Inl (NotFoundException (str ''Poll not found''))
      | p # _ \<Rightarrow>
          let vs = query (votes d) (\<lambda>v. poll_id v = i) 1000;
              d1 = fold (\<lambda>v s. delete_vote s (oid_v v)) vs d;
              d2 = delete_poll d1 (oid_p p)
          in Inr (\<lparr>deleted_poll_id = i, votes_removed = length vs\<rparr>, d2))"

subsection \<open>Closing a poll in PollsAPI\<close>

text \<open>
  \<^verbatim>\<open>PollsAPI/src/polls/polls.service.ts\<close> has the same \<^verbatim>\<open>close\<close>, except that its query
  names no limit, so that the client's default applies; \<open>client_limit\<close> stands for it.
\<close>

definition close_PollsAPI :: "nat \<Rightarrow> jsstring \<Rightarrow> db \<Rightarrow> jsstring \<Rightarrow> exception + (jsstring \<times> db)" where
  "close_PollsAPI client_limit now d i =
     (case query (polls d) (\<lambda>p. id_p p = i) client_limit of
        [] \<Rightarrow> Inl (NotFoundException (str ''Poll not found''))
      | p # _ \<Rightarrow>
          Inr (i, update_poll d (oid_p p) (\<lambda>r. r\<lparr>status := str ''closed'', closed_at := Some now\<rparr>)))"

section \<open>Notions used in the statements\<close>

text \<open>
  The poll a request for \<open>i\<close> works on: the services take the head of
  \<^verbatim>\<open>query(POLLS_COLLECTION, { id }, { limit: 1 })\<close>, the first stored poll with that id.
\<close>

definition get_poll :: "db \<Rightarrow> jsstring \<Rightarrow> poll option" where
  "get_poll d i = List.find (\<lambda>p. id_p p = i) (polls d)"

text \<open>The record an accepted vote leaves in the store.\<close>

definition stored_vote :: "db \<Rightarrow> jsstring \<Rightarrow> jsstring \<Rightarrow> jsstring \<Rightarrow> jsstring \<Rightarrow> jsstring \<Rightarrow> vote" where
  "stored_vote d new_id now i voter opt =
     \<lparr>oid_v = next_oid d, id_v = new_id, poll_id = i, voter_id = voter, option = opt,
      voted_at = now\<rparr>"

text \<open>
  The tally on natural numbers: the number of votes for each declared option. The counters
  of \<open>voteCounts\<close> hold these numbers as long as no key meets \<^verbatim>\<open>Object.prototype\<close>.
\<close>

definition tally_vote :: "vote \<Rightarrow> (jsstring \<times> nat) list \<Rightarrow> (jsstring \<times> nat) list" where
  "tally_vote v vc =
     (case map_of vc (option v) of
        None \<Rightarrow> vc
      | Some n \<Rightarrow> AList.update (option v) (n + 1) vc)"

definition tally :: "jsstring list \<Rightarrow> vote list \<Rightarrow> (jsstring \<times> nat) list" where
  "tally opts vs = fold tally_vote vs (fold (\<lambda>opt vc. AList.update opt 0 vc) opts [])"

text \<open>The counters that hold the numbers of a tally.\<close>

definition cells :: "(jsstring \<times> nat) list \<Rightarrow> (jsstring \<times> cell) list" where
  "cells pc = map (\<lambda>(k, n). (k, Count n)) pc"

text \<open>\<^verbatim>\<open>sum(counts.values())\<close>: the sum of the counters when all of them are counts.\<close>

fun counts_sum :: "(jsstring \<times> cell) list \<Rightarrow> nat option" where
  "counts_sum [] = Some 0"
| "counts_sum ((k, Count n) # xs) = map_option (\<lambda>m. n + m) (counts_sum xs)"
| "counts_sum ((k, _) # xs) = None"

text \<open>No two stored votes have the same poll and the same voter.\<close>

definition one_vote_per_voter :: "db \<Rightarrow> bool" where
  "one_vote_per_voter d = distinct (map (\<lambda>v. (poll_id v, voter_id v)) (votes d))"

subsection \<open>Example stores\<close>

definition poll_AB :: poll where
  "poll_AB =
     \<lparr>oid_p = 0, id_p = str ''p1'', question = str ''Pick one'', options = [str ''A'', str ''B''],
      category = Some (str ''General''), created_at = str ''t0'', expires_at = JNull,
      status = str ''active'', closed_at = None\<rparr>"

definition vote_of :: "nat \<Rightarrow> jsstring \<Rightarrow> jsstring \<Rightarrow> vote" where
  "vote_of n voter opt =
     \<lparr>oid_v = n, id_v = str ''v'', poll_id = str ''p1'', voter_id = voter, option = opt,
      voted_at = str ''t1''\<rparr>"

text \<open>The scenario of the spec: two voters, one vote for each option.\<close>

definition db_two :: db where
  "db_two =
     \<lparr>polls = [poll_AB], votes = [vote_of 1 (str ''u1'') (str ''A''), vote_of 2 (str ''u2'') (str ''B'')],
      next_oid = 3\<rparr>"

text \<open>A stored vote that names an option the poll does not declare.\<close>

definition db_stray :: db where
  "db_stray = \<lparr>polls = [poll_AB], votes = [vote_of 1 (str ''u1'') (str ''C'')], next_oid = 2\<rparr>"

text \<open>\<open>n\<close> votes for option A of the poll, by \<open>n\<close> different voters.\<close>

definition voter_name :: "nat \<Rightarrow> jsstring" where
  "voter_name k = str (replicate k CHR ''u'')"

definition many_votes :: "nat \<Rightarrow> vote list" where
  "many_votes n = map (\<lambda>k. vote_of (Suc k) (voter_name (Suc k)) (str ''A'')) [0..<n]"

definition db_many :: db where
  "db_many = \<lparr>polls = [poll_AB], votes = many_votes 1001, next_oid = 1002\<rparr>"

text \<open>
  A poll with an option named \<^verbatim>\<open>__proto__\<close>, as \<^verbatim>\<open>create\<close> stores it, before and after
  a vote for that option.
\<close>

definition poll_proto :: poll where
  "poll_proto =
     \<lparr>oid_p = 0, id_p = str ''p9'', question = str ''Q'', options = [str ''__proto__'', str ''A''],
      category = Some (str ''General''), created_at = str ''t0'', expires_at = JNull,
      status = str ''active'', closed_at = None\<rparr>"

definition db_proto0 :: db where
  "db_proto0 = \<lparr>polls = [poll_proto], votes = [], next_oid = 1\<rparr>"

definition db_proto :: db where
  "db_proto =
     \<lparr>polls = [poll_proto],
      votes = [\<lparr>oid_v = 1, id_v = str ''v1'', poll_id = str ''p9'', voter_id = str ''u1'',
                option = str ''__proto__'', voted_at = str ''t1''\<rparr>],
      next_oid = 2\<rparr>"

text \<open>A closed poll without votes.\<close>

definition db_closed :: db where
  "db_closed =
     \<lparr>polls = [poll_AB\<lparr>status := str ''closed'', closed_at := Some (str ''t5'')\<rparr>], votes = [],
      next_oid = 1\<rparr>"

text \<open>\<open>a\<close> votes for option A followed by \<open>b\<close> votes for option B, all by different voters.\<close>

definition db_votes :: "nat \<Rightarrow> nat \<Rightarrow> db" where
  "db_votes a b =
     \<lparr>polls = [poll_AB],
      votes = map (\<lambda>k. vote_of (Suc k) (voter_name (Suc k)) (if k < a then str ''A'' else str ''B''))
                [0..<a + b],
      next_oid = Suc (a + b)\<rparr>"



section \<open>Properties of strings\<close>

lemma of_char_unit_eq_iff: "(of_char c :: 16 word) = of_char d \<longleftrightarrow> c = d"
proof -
  have a: "(of_char x :: 16 word) = of_nat (of_char x)" for x
    by (simp only: of_nat_of_char)
  have b: "take_bit 16 (of_char x :: nat) = of_char x" for x
    by (rule take_bit_nat_eq_self) (simp add: order_less_trans[OF nat_of_char_less_256])
  show ?thesis
    by (simp add: a word_of_nat_eq_iff b)
qed

lemma str_eq_iff [simp]: "str s = str t \<longleftrightarrow> s = t"
  by (simp add: str_def inj_map_eq_map inj_def of_char_unit_eq_iff)

lemma str_Nil [simp]: "str [] = []" "str s = [] \<longleftrightarrow> s = []" "[] = str s \<longleftrightarrow> s = []"
  by (auto simp: str_def)

lemma str_append: "str (s @ t) = str s @ str t"
  by (simp add: str_def)

section \<open>Properties of sets and of the tally on natural numbers\<close>

lemma fold_Set_add_set: "set (fold (\<lambda>x s. Set_add s x) xs s) = set xs \<union> set s"
  by (induction xs arbitrary: s) (auto simp: Set_add_def)

lemma fold_Set_add_distinct: "distinct s \<Longrightarrow> distinct (fold (\<lambda>x s. Set_add s x) xs s)"
  by (induction xs arbitrary: s) (auto simp: Set_add_def)

lemma set_new_Set: "set (new_Set xs) = set xs"
  by (simp add: new_Set_def fold_Set_add_set)

lemma distinct_new_Set: "distinct (new_Set xs)"
  by (simp add: new_Set_def fold_Set_add_distinct)

lemma keys_init:
  "map fst (fold (\<lambda>opt vc. AList.update opt (0::nat) vc) opts acc) =
   fold (\<lambda>x s. Set_add s x) opts (map fst acc)"
  by (induction opts arbitrary: acc) (auto simp: update_keys Set_add_def)

lemma map_of_init:
  "map_of (fold (\<lambda>opt vc. AList.update opt (0::nat) vc) opts acc) k =
   (if k \<in> set opts then Some 0 else map_of acc k)"
  by (induction opts arbitrary: acc) (auto simp: update_conv')

lemma zero_init:
  "snd ` set acc \<subseteq> {0} \<Longrightarrow>
   snd ` set (fold (\<lambda>opt vc. AList.update opt (0::nat) vc) opts acc) \<subseteq> {0}"
proof (induction opts arbitrary: acc)
  case Nil
  then show ?case by simp
next
  case (Cons x xs)
  have "set (AList.update x (0::nat) acc) \<subseteq> insert (x, 0) (set acc)"
    by (induction acc) auto
  with Cons.prems have "snd ` set (AList.update x (0::nat) acc) \<subseteq> {0}" by fastforce
  from Cons.IH[OF this] show ?case by simp
qed

lemma sum_list_zero: "snd ` set al \<subseteq> {0::nat} \<Longrightarrow> sum_list (map snd al) = 0"
  by (induction al) auto

lemma key_absent: "k \<notin> fst ` set vc \<Longrightarrow> map_of vc k = None"
  by (simp add: map_of_eq_None_iff)

lemma key_present: "map_of vc k = Some n \<Longrightarrow> k \<in> fst ` set vc"
  by (metis map_of_eq_None_iff option.distinct(1))

lemma keys_tally_vote: "map fst (tally_vote v vc) = map fst vc"
proof (cases "map_of vc (option v)")
  case None
  then show ?thesis by (simp add: tally_vote_def)
next
  case (Some n)
  then show ?thesis using key_present[OF Some] by (simp add: tally_vote_def update_keys)
qed

lemma keys_fold_count: "map fst (fold tally_vote vs vc) = map fst vc"
  by (induction vs arbitrary: vc) (simp_all add: keys_tally_vote)

lemma map_of_tally_vote:
  "map_of (tally_vote v vc) k =
   map_option (\<lambda>n. if option v = k then n + 1 else n) (map_of vc k)"
proof (cases "map_of vc (option v)")
  case None
  then show ?thesis by (cases "option v = k") (auto simp: tally_vote_def option.map_ident)
next
  case (Some n)
  then show ?thesis
    by (cases "option v = k") (auto simp: tally_vote_def update_conv' option.map_ident)
qed

lemma map_of_fold_count:
  "map_of (fold tally_vote vs vc) k =
   map_option (\<lambda>n. n + length (filter (\<lambda>v. option v = k) vs)) (map_of vc k)"
proof (induction vs arbitrary: vc)
  case Nil
  then show ?case by (simp add: option.map_ident)
next
  case (Cons v vs)
  show ?case
    by (cases "map_of vc k") (simp_all add: Cons.IH map_of_tally_vote)
qed

lemma sum_update:
  "map_of al k = Some n \<Longrightarrow>
   sum_list (map snd (AList.update k (Suc n) al)) = Suc (sum_list (map snd al))"
  by (induction al) (auto split: if_splits)

lemma sum_tally_vote:
  "sum_list (map snd (tally_vote v vc)) =
   sum_list (map snd vc) + (if option v \<in> fst ` set vc then 1 else 0)"
proof (cases "map_of vc (option v)")
  case None
  then have "option v \<notin> fst ` set vc" by (simp add: map_of_eq_None_iff)
  with None show ?thesis by (simp add: tally_vote_def)
next
  case (Some n)
  then have "option v \<in> fst ` set vc" by (rule key_present)
  with Some show ?thesis by (simp add: tally_vote_def sum_update)
qed

lemma sum_fold_count:
  "sum_list (map snd (fold tally_vote vs vc)) =
   sum_list (map snd vc) + length (filter (\<lambda>v. option v \<in> fst ` set vc) vs)"
proof (induction vs arbitrary: vc)
  case Nil
  then show ?case by simp
next
  case (Cons v vs)
  have "fst ` set (tally_vote v vc) = fst ` set vc"
    using keys_tally_vote[of v vc] by (metis set_map)
  then show ?case by (simp add: Cons.IH sum_tally_vote)
qed

lemma keys_tally: "map fst (tally opts vs) = new_Set opts"
  by (simp add: tally_def keys_fold_count keys_init new_Set_def)

lemma map_of_tally:
  "map_of (tally opts vs) k =
   (if k \<in> set opts then Some (length (filter (\<lambda>v. option v = k) vs)) else None)"
  by (simp add: tally_def map_of_fold_count map_of_init)

lemma sum_tally:
  "sum_list (map snd (tally opts vs)) = length (filter (\<lambda>v. option v \<in> set opts) vs)"
proof -
  let ?i = "fold (\<lambda>opt vc. AList.update opt (0::nat) vc) opts []"
  have "fst ` set ?i = set opts"
    using keys_init[of opts "[]"] fold_Set_add_set[of opts "[]"] by (metis list.simps(8) set_map sup_bot.right_neutral list.set(1))
  moreover have "sum_list (map snd ?i) = 0"
    by (rule sum_list_zero) (rule zero_init, simp)
  ultimately show ?thesis by (simp add: tally_def sum_fold_count)
qed

lemma tally_vote_ignored: "option v \<notin> fst ` set vc \<Longrightarrow> tally_vote v vc = vc"
  by (simp add: tally_vote_def key_absent)

lemma fold_count_filter:
  "fold tally_vote vs vc = fold tally_vote (filter (\<lambda>v. option v \<in> fst ` set vc) vs) vc"
proof (induction vs arbitrary: vc)
  case Nil
  then show ?case by simp
next
  case (Cons v vs)
  have k: "fst ` set (tally_vote v vc) = fst ` set vc"
    using keys_tally_vote[of v vc] by (metis set_map)
  show ?case
  proof (cases "option v \<in> fst ` set vc")
    case True
    then show ?thesis using Cons.IH[of "tally_vote v vc"] by (simp add: k)
  next
    case False
    then show ?thesis using Cons.IH[of vc] by (simp add: tally_vote_ignored)
  qed
qed

lemma all_zero: "snd ` set al \<subseteq> {0::nat} \<Longrightarrow> al = map (\<lambda>k. (k, 0)) (map fst al)"
  by (induction al) auto

lemma tally_Nil: "tally opts [] = map (\<lambda>k. (k, 0)) (new_Set opts)"
proof -
  let ?i = "fold (\<lambda>opt vc. AList.update opt (0::nat) vc) opts []"
  have "snd ` set ?i \<subseteq> {0}" by (rule zero_init) simp
  then have "?i = map (\<lambda>k. (k, 0)) (map fst ?i)"
    by (rule all_zero)
  then show ?thesis by (simp add: tally_def keys_init new_Set_def)
qed

section \<open>Properties of the counters\<close>

lemma map_of_obj_set:
  "map_of (obj_set obj k v) j =
   (if k = str ''__proto__'' then map_of obj j else if j = k then Some v else map_of obj j)"
  by (simp add: obj_set_def update_conv')

lemma obj_get_Own: "map_of obj k = Some v \<Longrightarrow> obj_get obj k = Own v"
  by (simp add: obj_get_def)

lemma map_of_count_vote:
  assumes "k \<noteq> str ''__proto__''" and "map_of vc k = Some (Count n)"
  shows "map_of (count_vote v vc) k = Some (Count (if option v = k then n + 1 else n))"
proof (cases "option v = k")
  case True
  with assms show ?thesis
    by (simp add: count_vote_def obj_get_Own map_of_obj_set)
next
  case False
  with assms show ?thesis
    by (cases "obj_get vc (option v)") (simp_all add: count_vote_def map_of_obj_set)
qed

lemma map_of_fold_count_vote:
  assumes "k \<noteq> str ''__proto__''"
  shows "map_of vc k = Some (Count n) \<Longrightarrow>
         map_of (fold count_vote vs vc) k =
         Some (Count (n + length (filter (\<lambda>v. option v = k) vs)))"
proof (induction vs arbitrary: vc n)
  case Nil
  then show ?case by simp
next
  case (Cons v vs)
  from map_of_count_vote[OF assms Cons.prems, of v]
  have "map_of (count_vote v vc) k = Some (Count (if option v = k then n + 1 else n))" .
  from Cons.IH[OF this] show ?case by simp
qed

lemma map_of_init_cells:
  "map_of (fold (\<lambda>opt vc. obj_set vc opt (Count 0)) opts acc) k =
   (if k \<in> set opts \<and> k \<noteq> str ''__proto__'' then Some (Count 0) else map_of acc k)"
  by (induction opts arbitrary: acc) (auto simp: map_of_obj_set)

lemma map_of_voteCounts:
  "k \<in> set opts \<Longrightarrow> k \<noteq> str ''__proto__'' \<Longrightarrow>
   map_of (voteCounts opts vs) k = Some (Count (length (filter (\<lambda>v. option v = k) vs)))"
  using map_of_fold_count_vote[of k "fold (\<lambda>opt vc. obj_set vc opt (Count 0)) opts []" 0 vs]
  by (simp add: voteCounts_def map_of_init_cells)

text \<open>The counters are the tally on natural numbers when no key meets the prototype.\<close>

lemma cells_simps: "cells [] = []" "cells ((k, n) # pc) = (k, Count n) # cells pc"
  by (simp_all add: cells_def)

lemma map_of_cells: "map_of (cells pc) k = map_option Count (map_of pc k)"
  by (induction pc) (auto simp: cells_simps)

lemma keys_cells: "map fst (cells pc) = map fst pc"
  by (induction pc) (auto simp: cells_simps)

lemma update_cells:
  "AList.update k (Count n) (cells pc) =
   cells (AList.update k n pc)"
  by (induction pc) (auto simp: cells_simps)

lemma init_cells:
  "str ''__proto__'' \<notin> set opts \<Longrightarrow>
   fold (\<lambda>opt vc. obj_set vc opt (Count 0)) opts (cells acc) =
   cells (fold (\<lambda>opt vc. AList.update opt 0 vc) opts acc)"
proof (induction opts arbitrary: acc)
  case Nil
  then show ?case by simp
next
  case (Cons x xs)
  then have x: "x \<noteq> str ''__proto__''" and xs: "str ''__proto__'' \<notin> set xs" by auto
  show ?case
    using Cons.IH[OF xs, of "AList.update x 0 acc"] x
    by (simp add: obj_set_def[of _ x] update_cells)
qed

lemma member_neq: "x \<in> A \<Longrightarrow> y \<notin> A \<Longrightarrow> x \<noteq> y"
  by auto

lemma count_vote_cells:
  assumes "option v \<in> fst ` set pc \<or> option v \<notin> set Object_prototype"
    and "str ''__proto__'' \<notin> fst ` set pc"
  shows "count_vote v (cells pc) = cells (tally_vote v pc)"
proof (cases "map_of pc (option v)")
  case None
  then have "option v \<notin> fst ` set pc" by (simp add: map_of_eq_None_iff)
  with assms(1) have "option v \<notin> set Object_prototype" by blast
  with None show ?thesis
    by (simp add: count_vote_def tally_vote_def obj_get_def map_of_cells)
next
  case (Some n)
  then have "option v \<in> fst ` set pc" by (rule key_present)
  from this assms(2) have "option v \<noteq> str ''__proto__''" by (rule member_neq)
  with Some show ?thesis
    by (simp add: count_vote_def tally_vote_def obj_get_def map_of_cells obj_set_def update_cells)
qed

lemma fold_count_vote_cells:
  assumes "str ''__proto__'' \<notin> fst ` set pc"
  shows "\<forall>v \<in> set vs. option v \<in> fst ` set pc \<or> option v \<notin> set Object_prototype \<Longrightarrow>
         fold count_vote vs (cells pc) =
         cells (fold tally_vote vs pc)"
  using assms
proof (induction vs arbitrary: pc)
  case Nil
  then show ?case by simp
next
  case (Cons v vs)
  have k: "fst ` set (tally_vote v pc) = fst ` set pc"
    using keys_tally_vote[of v pc] by (metis set_map)
  from Cons.prems have v: "option v \<in> fst ` set pc \<or> option v \<notin> set Object_prototype"
    and vs: "\<forall>w \<in> set vs. option w \<in> fst ` set (tally_vote v pc) \<or> option w \<notin> set Object_prototype"
    and p: "str ''__proto__'' \<notin> fst ` set (tally_vote v pc)"
    by (simp_all add: k)
  show ?case
    using Cons.IH[OF vs p] count_vote_cells[OF v Cons.prems(2)] by simp
qed

lemma voteCounts_tally:
  assumes "str ''__proto__'' \<notin> set opts"
    and "\<forall>v \<in> set vs. option v \<in> set opts \<or> option v \<notin> set Object_prototype"
  shows "voteCounts opts vs = cells (tally opts vs)"
proof -
  let ?i = "fold (\<lambda>opt vc. AList.update opt (0::nat) vc) opts []"
  have k: "fst ` set ?i = set opts"
    using keys_init[of opts "[]"] fold_Set_add_set[of opts "[]"]
    by (metis list.simps(8) set_map sup_bot.right_neutral list.set(1))
  have i: "fold (\<lambda>opt vc. obj_set vc opt (Count 0)) opts [] = cells ?i"
    using init_cells[OF assms(1), of "[]"] by (simp add: cells_simps)
  show ?thesis
    unfolding voteCounts_def tally_def i
    by (rule fold_count_vote_cells) (simp_all add: k assms)
qed

lemma counts_sum_cells: "counts_sum (cells pc) = Some (sum_list (map snd pc))"
  by (induction pc) (auto simp: cells_simps)

section \<open>Properties of the store operations\<close>

lemma query_get_poll:
  "query (polls d) (\<lambda>p. id_p p = i) (Suc 0) = (case get_poll d i of None \<Rightarrow> [] | Some p \<Rightarrow> [p])"
proof -
  have "take (Suc 0) (filter P xs) = (case List.find P xs of None \<Rightarrow> [] | Some p \<Rightarrow> [p])"
    for P :: "poll \<Rightarrow> bool" and xs
    by (induction xs) auto
  then show ?thesis by (simp add: query_def get_poll_def)
qed

lemma with_counts_eq:
  "with_counts d p =
   \<lparr>the_poll = p, total_votes = length (take 1000 (findByPoll d (id_p p))),
    vote_counts = voteCounts (options p) (take 1000 (findByPoll d (id_p p)))\<rparr>"
  by (simp add: with_counts_def query_def findByPoll_def Let_def)

lemma filter_take_distinct:
  "distinct (map f xs) \<Longrightarrow> filter (\<lambda>x. f x \<notin> f ` set (take n xs)) xs = drop n xs"
proof -
  assume d: "distinct (map f xs)"
  have xs: "xs = take n xs @ drop n xs" by simp
  from d have "distinct (map f (take n xs) @ map f (drop n xs))"
    by (metis append_take_drop_id map_append)
  then have disj: "f ` set (take n xs) \<inter> f ` set (drop n xs) = {}"
    by (simp add: distinct_append)
  have a: "filter (\<lambda>x. f x \<notin> f ` set (take n xs)) (take n xs) = []"
    by (simp add: filter_empty_conv)
  have b: "filter (\<lambda>x. f x \<notin> f ` set (take n xs)) (drop n xs) = drop n xs"
    using disj by (intro filter_True) blast
  have "filter (\<lambda>x. f x \<notin> f ` set (take n xs)) (take n xs @ drop n xs) = drop n xs"
    unfolding filter_append a b by simp
  then show ?thesis by simp
qed

lemma fold_delete_vote:
  "fold (\<lambda>v s. delete_vote s (oid_v v)) vs d =
   d\<lparr>votes := filter (\<lambda>v. oid_v v \<notin> oid_v ` set vs) (votes d)\<rparr>"
proof (induction vs arbitrary: d)
  case Nil
  then show ?case by simp
next
  case (Cons v vs)
  have "fold (\<lambda>v s. delete_vote s (oid_v v)) (v # vs) d =
        fold (\<lambda>v s. delete_vote s (oid_v v)) vs (delete_vote d (oid_v v))"
    by simp
  also have "\<dots> = (delete_vote d (oid_v v))\<lparr>votes :=
      filter (\<lambda>w. oid_v w \<notin> oid_v ` set vs) (votes (delete_vote d (oid_v v)))\<rparr>"
    by (rule Cons.IH)
  also have "\<dots> = d\<lparr>votes := filter (\<lambda>w. oid_v w \<notin> oid_v ` set (v # vs)) (votes d)\<rparr>"
    by (simp add: delete_vote_def conj_commute)
  finally show ?case .
qed

lemma remove_Inr:
  "remove d i = Inr (r, d') \<Longrightarrow>
   \<exists>p ps. query (polls d) (\<lambda>p. id_p p = i) 1 = p # ps \<and>
     r = \<lparr>deleted_poll_id = i, votes_removed = length (take 1000 (findByPoll d i))\<rparr> \<and>
     d' = d\<lparr>votes := filter (\<lambda>v. oid_v v \<notin> oid_v ` set (take 1000 (findByPoll d i))) (votes d),
            polls := filter (\<lambda>q. oid_p q \<noteq> oid_p p) (polls d)\<rparr>"
  by (auto simp: remove_def query_def findByPoll_def Let_def fold_delete_vote delete_poll_def
      split: list.splits)

lemma distinct_filter_map: "distinct (map f xs) \<Longrightarrow> distinct (map f (filter P xs))"
  by (induction xs) auto

lemma findByPoll_after_remove:
  assumes "distinct (map oid_v (votes d))" and "remove d i = Inr (r, d')"
  shows "findByPoll d' i = drop 1000 (findByPoll d i)"
proof -
  let ?xs = "findByPoll d i"
  from remove_Inr[OF assms(2)]
  have v: "votes d' = filter (\<lambda>v. oid_v v \<notin> oid_v ` set (take 1000 ?xs)) (votes d)"
    by auto
  have "findByPoll d' i = filter (\<lambda>v. oid_v v \<notin> oid_v ` set (take 1000 ?xs)) ?xs"
    by (simp add: findByPoll_def[of d'] v findByPoll_def[of d, symmetric] conj_commute)
      (simp add: findByPoll_def conj_commute)
  moreover have "distinct (map oid_v ?xs)"
    unfolding findByPoll_def by (rule distinct_filter_map) (rule assms(1))
  ultimately show ?thesis by (simp add: filter_take_distinct)
qed

lemma other_votes_after_remove:
  assumes "remove d i = Inr (r, d')" and "j \<noteq> i" and "distinct (map oid_v (votes d))"
  shows "findByPoll d' j = findByPoll d j"
proof -
  let ?xs = "findByPoll d i"
  from remove_Inr[OF assms(1)]
  have v: "votes d' = filter (\<lambda>v. oid_v v \<notin> oid_v ` set (take 1000 ?xs)) (votes d)"
    by auto
  have "\<And>v. v \<in> set (votes d) \<Longrightarrow> poll_id v = j \<Longrightarrow> oid_v v \<notin> oid_v ` set (take 1000 ?xs)"
  proof
    fix v assume a: "v \<in> set (votes d)" "poll_id v = j" "oid_v v \<in> oid_v ` set (take 1000 ?xs)"
    then obtain w where w: "w \<in> set (take 1000 ?xs)" "oid_v w = oid_v v" by auto
    then have "w \<in> set ?xs" by (meson in_set_takeD)
    then have ww: "w \<in> set (votes d)" "poll_id w = i" by (auto simp: findByPoll_def)
    from assms(3) a(1) ww(1) w(2) have "w = v" by (meson distinct_map inj_onD)
    with ww a assms(2) show False by simp
  qed
  then show ?thesis
    unfolding findByPoll_def v filter_filter by (intro filter_cong) auto
qed

section \<open>Properties of vote requests\<close>

lemma query_one_empty: "query xs P (Suc 0) = [] \<longleftrightarrow> filter P xs = []"
  by (cases "filter P xs") (simp_all add: query_def)

lemma query_one_hd: "filter P xs = x # zs \<Longrightarrow> query xs P (Suc 0) = [x]"
  by (simp add: query_def)

lemma required_string_Some: "required_string x = Some s \<longleftrightarrow> x = JStr s \<and> s \<noteq> []"
  by (cases x) auto

lemma vote_already:
  assumes "voter \<noteq> []" "opt \<noteq> []" "query (polls d) (\<lambda>p. id_p p = i) 1 = p # ps"
    and "status p = str ''active''" "opt \<in> set (options p)"
    and "findByPollAndVoter d i voter = e # es"
  shows "vote new_id now d i (JStr voter) (JStr opt) =
         Inl (BadRequestException (str ''Already voted: '' @ option e))"
  using assms query_one_hd[of "\<lambda>v. poll_id v = i \<and> voter_id v = voter" "votes d" e es]
  by (simp add: vote_def findByPollAndVoter_def)

lemma vote_accepted:
  assumes "voter \<noteq> []" "opt \<noteq> []" "query (polls d) (\<lambda>p. id_p p = i) 1 = p # ps"
    and "status p = str ''active''" "opt \<in> set (options p)"
    and "findByPollAndVoter d i voter = []"
  shows "vote new_id now d i (JStr voter) (JStr opt) =
         Inr (\<lparr>vote_poll_id = i, vote_voter_id = voter, vote_option = opt,
               results_total_votes =
                 length (take 1000 (findByPoll d i @ [stored_vote d new_id now i voter opt])),
               results_vote_counts =
                 voteCounts (options p)
                   (take 1000 (findByPoll d i @ [stored_vote d new_id now i voter opt]))\<rparr>,
              d\<lparr>votes := votes d @ [stored_vote d new_id now i voter opt],
                next_oid := Suc (next_oid d)\<rparr>)"
proof -
  have "query (votes d) (\<lambda>v. poll_id v = i \<and> voter_id v = voter) 1 = []"
    using assms(6) by (simp add: query_one_empty findByPollAndVoter_def)
  with assms(1-5) show ?thesis
    by (simp add: vote_def Let_def create_vote_def query_def findByPoll_def stored_vote_def)
qed

lemma vote_Inr:
  assumes "vote new_id now d i voter_in option_in = Inr (resp, d')"
  shows "\<exists>voter opt p ps. voter_in = JStr voter \<and> voter \<noteq> [] \<and> option_in = JStr opt \<and> opt \<noteq> [] \<and>
           query (polls d) (\<lambda>p. id_p p = i) 1 = p # ps \<and> status p = str ''active'' \<and>
           opt \<in> set (options p) \<and> findByPollAndVoter d i voter = [] \<and>
           d' = d\<lparr>votes := votes d @ [stored_vote d new_id now i voter opt],
                  next_oid := Suc (next_oid d)\<rparr>"
proof -
  from assms obtain voter where v: "required_string voter_in = Some voter"
    by (auto simp: vote_def split: option.splits)
  from assms v obtain opt where opt: "required_string option_in = Some opt"
    by (auto simp: vote_def split: option.splits)
  from assms v opt obtain p ps where p: "query (polls d) (\<lambda>p. id_p p = i) 1 = p # ps"
    by (auto simp: vote_def split: list.splits)
  from assms v opt p have st: "status p = str ''active''" and o: "opt \<in> set (options p)"
    by (auto simp: vote_def split: if_splits)
  from assms v opt p st o have e: "query (votes d) (\<lambda>v. poll_id v = i \<and> voter_id v = voter) 1 = []"
    by (auto simp: vote_def split: list.splits)
  then have e': "findByPollAndVoter d i voter = []"
    by (simp add: query_one_empty findByPollAndVoter_def)
  from v opt have vs: "voter_in = JStr voter" "voter \<noteq> []" "option_in = JStr opt" "opt \<noteq> []"
    by (simp_all add: required_string_Some)
  from assms vote_accepted[OF vs(2) vs(4) p st o e', of new_id now] vs
  have "d' = d\<lparr>votes := votes d @ [stored_vote d new_id now i voter opt],
                  next_oid := Suc (next_oid d)\<rparr>" by simp
  with vs p st o e' show ?thesis by blast
qed

lemma one_vote_per_voter_iff:
  "one_vote_per_voter d \<longleftrightarrow> (\<forall>pid vid. length (findByPollAndVoter d pid vid) \<le> 1)"
proof -
  have "distinct (map f xs) \<longleftrightarrow> (\<forall>k. length (filter (\<lambda>x. f x = k) xs) \<le> 1)" for f :: "vote \<Rightarrow> jsstring \<times> jsstring" and xs
  proof (induction xs)
    case Nil
    then show ?case by simp
  next
    case (Cons x xs)
    show ?case
    proof
      assume a: "distinct (map f (x # xs))"
      then have ih: "\<forall>k. length (filter (\<lambda>x. f x = k) xs) \<le> 1" and nx: "f x \<notin> f ` set xs"
        using Cons.IH by auto
      from nx have "\<And>y. y \<in> set xs \<Longrightarrow> f y \<noteq> f x" by (metis imageI)
      then have "filter (\<lambda>y. f y = f x) xs = []" by (simp add: filter_empty_conv)
      with ih show "\<forall>k. length (filter (\<lambda>x. f x = k) (x # xs)) \<le> 1" by auto
    next
      assume a: "\<forall>k. length (filter (\<lambda>y. f y = k) (x # xs)) \<le> 1"
      then have "length (filter (\<lambda>y. f y = f x) (x # xs)) \<le> 1" by blast
      then have "filter (\<lambda>y. f y = f x) xs = []" by simp
      then have nx: "f x \<notin> f ` set xs" by (auto simp: filter_empty_conv)
      have "\<forall>k. length (filter (\<lambda>y. f y = k) xs) \<le> 1"
      proof
        fix k
        from a have "length (filter (\<lambda>y. f y = k) (x # xs)) \<le> 1" by blast
        then show "length (filter (\<lambda>y. f y = k) xs) \<le> 1" by (simp split: if_splits)
      qed
      with Cons.IH nx show "distinct (map f (x # xs))" by simp
    qed
  qed
  from this[of "\<lambda>v. (poll_id v, voter_id v)" "votes d"]
  show ?thesis by (simp add: one_vote_per_voter_def findByPollAndVoter_def)
qed

lemma vote_step_cases:
  "vote_step d r = d \<or>
   (\<exists>voter opt. findByPollAndVoter d (req_poll r) voter = [] \<and>
      vote_step d r = d\<lparr>votes := votes d @ [stored_vote d (req_new_id r) (req_now r) (req_poll r) voter opt],
                  next_oid := Suc (next_oid d)\<rparr>)"
proof (cases "vote (req_new_id r) (req_now r) d (req_poll r) (req_voter r) (req_option r)")
  case (Inl e)
  then show ?thesis by (simp add: vote_step_def)
next
  case (Inr x)
  obtain resp d' where x: "x = (resp, d')" by (cases x)
  from vote_Inr[OF Inr[unfolded x]] Inr x show ?thesis
    by (auto simp: vote_step_def)
qed

lemma vote_step_inv: "one_vote_per_voter d \<Longrightarrow> one_vote_per_voter (vote_step d r)"
proof -
  assume inv: "one_vote_per_voter d"
  from vote_step_cases[of d r] show ?thesis
  proof
    assume "vote_step d r = d" with inv show ?thesis by simp
  next
    assume "\<exists>voter opt. findByPollAndVoter d (req_poll r) voter = [] \<and>
      vote_step d r = d\<lparr>votes := votes d @ [stored_vote d (req_new_id r) (req_now r) (req_poll r) voter opt],
                  next_oid := Suc (next_oid d)\<rparr>"
    then obtain voter opt where e: "findByPollAndVoter d (req_poll r) voter = []"
      and s: "vote_step d r = d\<lparr>votes := votes d @ [stored_vote d (req_new_id r) (req_now r) (req_poll r) voter opt],
                  next_oid := Suc (next_oid d)\<rparr>" by blast
    from e have "(req_poll r, voter) \<notin> (\<lambda>v. (poll_id v, voter_id v)) ` set (votes d)"
      by (auto simp: findByPollAndVoter_def filter_empty_conv)
    with inv show ?thesis
      by (simp add: s one_vote_per_voter_def stored_vote_def)
  qed
qed

lemma vote_all_inv: "one_vote_per_voter d \<Longrightarrow> one_vote_per_voter (vote_all d rs)"
  unfolding vote_all_def by (induction rs arbitrary: d) (simp_all add: vote_step_inv)

section \<open>The answers in terms of the stored votes\<close>

lemma findOne_eq:
  "findOne d i =
   (case get_poll d i of
      None \<Rightarrow> Inl (NotFoundException (str ''Poll not found''))
    | Some p \<Rightarrow>
        Inr \<lparr>the_poll = p, total_votes = length (take 1000 (findByPoll d i)),
             vote_counts = voteCounts (options p) (take 1000 (findByPoll d i)),
             vote_percentages =
               votePercentages (options p) (voteCounts (options p) (take 1000 (findByPoll d i)))
                 (length (take 1000 (findByPoll d i)))\<rparr>)"
proof -
  have q: "query (polls d) (\<lambda>p. id_p p = i) 1 = (case get_poll d i of None \<Rightarrow> [] | Some p \<Rightarrow> [p])"
    using query_get_poll by simp
  show ?thesis
    unfolding findOne_def q
    by (cases "get_poll d i") (simp_all add: query_def findByPoll_def Let_def)
qed

lemma remove_eq:
  "remove d i =
   (case get_poll d i of
      None \<Rightarrow> Inl (NotFoundException (str ''Poll not found''))
    | Some p \<Rightarrow>
        Inr (\<lparr>deleted_poll_id = i, votes_removed = length (take 1000 (findByPoll d i))\<rparr>,
             d\<lparr>votes := filter (\<lambda>v. oid_v v \<notin> oid_v ` set (take 1000 (findByPoll d i))) (votes d),
               polls := filter (\<lambda>q. oid_p q \<noteq> oid_p p) (polls d)\<rparr>))"
proof -
  have q: "query (polls d) (\<lambda>p. id_p p = i) 1 = (case get_poll d i of None \<Rightarrow> [] | Some p \<Rightarrow> [p])"
    using query_get_poll by simp
  show ?thesis
    unfolding remove_def q
    by (cases "get_poll d i")
      (simp_all add: query_def findByPoll_def Let_def fold_delete_vote delete_poll_def)
qed

lemma findAll_member:
  "pc \<in> set (findAll d) \<Longrightarrow>
   \<exists>p \<in> set (polls d). pc = \<lparr>the_poll = p, total_votes = length (take 1000 (findByPoll d (id_p p))),
    vote_counts = voteCounts (options p) (take 1000 (findByPoll d (id_p p)))\<rparr>"
  by (auto simp: findAll_def query_def with_counts_eq dest: in_set_takeD)

section \<open>The tally of a poll\<close>

text \<open>
  As long as no declared option is named \<^verbatim>\<open>__proto__\<close> and every vote names a declared
  option or a string that is no member of \<^verbatim>\<open>Object.prototype\<close>, the tally is what its
  lines say: the keys are the declared options, each once, a vote for an undeclared option
  changes nothing, and each counter holds the number of votes for its option.
\<close>

lemma tally_ordinary_keys:
  assumes "str ''__proto__'' \<notin> set opts"
    and "\<forall>v \<in> set vs. option v \<in> set opts \<or> option v \<notin> set Object_prototype"
  shows "set (map fst (voteCounts opts vs)) = set opts"
    and "distinct (map fst (voteCounts opts vs))"
    and "voteCounts opts vs = voteCounts opts (filter (\<lambda>v. option v \<in> set opts) vs)"
    and "map_of (voteCounts opts vs) k =
         (if k \<in> set opts then Some (Count (length (filter (\<lambda>v. option v = k) vs))) else None)"
    and "counts_sum (voteCounts opts vs) = Some (length (filter (\<lambda>v. option v \<in> set opts) vs))"
proof -
  note t = voteCounts_tally[OF assms]
  show "set (map fst (voteCounts opts vs)) = set opts"
    by (simp only: t keys_cells keys_tally set_new_Set)
  show "distinct (map fst (voteCounts opts vs))"
    by (simp only: t keys_cells keys_tally distinct_new_Set)
  show "map_of (voteCounts opts vs) k =
         (if k \<in> set opts then Some (Count (length (filter (\<lambda>v. option v = k) vs))) else None)"
    by (simp add: t map_of_cells map_of_tally)
  show "counts_sum (voteCounts opts vs) = Some (length (filter (\<lambda>v. option v \<in> set opts) vs))"
    by (simp only: t counts_sum_cells sum_tally)
  let ?i = "fold (\<lambda>opt vc. AList.update opt (0::nat) vc) opts []"
  have k: "fst ` set ?i = set opts"
    using keys_init[of opts "[]"] fold_Set_add_set[of opts "[]"]
    by (metis list.simps(8) set_map sup_bot.right_neutral list.set(1))
  have "tally opts vs = tally opts (filter (\<lambda>v. option v \<in> set opts) vs)"
    unfolding tally_def using fold_count_filter[of vs ?i] by (simp only: k)
  moreover have "voteCounts opts (filter (\<lambda>v. option v \<in> set opts) vs) =
      cells (tally opts (filter (\<lambda>v. option v \<in> set opts) vs))"
    by (rule voteCounts_tally) (simp_all add: assms(1))
  ultimately show "voteCounts opts vs = voteCounts opts (filter (\<lambda>v. option v \<in> set opts) vs)"
    by (simp only: t)
qed

text \<open>
  C8. Tallying is meant to start every declared option at count 0, to ignore a vote whose
  option the poll does not declare, and to have exactly the declared options as keys. The
  lines of the tally do not do so for the member names of \<^verbatim>\<open>Object.prototype\<close>.
  \<^verbatim>\<open>voteCounts['__proto__'] = 0\<close> assigns nothing, so a declared option of that name is no
  key, and a vote for it, which \<^verbatim>\<open>vote\<close> accepts, is counted in the total and in no
  counter. \<^verbatim>\<open>voteCounts['toString'] !== undefined\<close> holds through the prototype, so a stored
  vote for an undeclared option of that name is not ignored: \<^verbatim>\<open>++\<close> adds the key with the
  value \<^verbatim>\<open>NaN\<close>. The poll below is created and voted on through the services.
\<close>

theorem tally_prototype_keys:
  "voteCounts [str ''__proto__'', str ''A''] [] = [(str ''A'', Count 0)] \<and>
   voteCounts [str ''A'', str ''B''] [vote_of 1 (str ''u1'') (str ''toString'')] =
     [(str ''A'', Count 0), (str ''B'', Count 0), (str ''toString'', NaN_cell)] \<and>
   map_sum id snd
     (create (str ''p9'') (str ''t0'') \<lparr>polls = [], votes = [], next_oid = 0\<rparr>
        (JStr (str ''Q'')) (JArr [JStr (str ''__proto__''), JStr (str ''A'')]) JUndefined JUndefined) =
     Inr db_proto0 \<and>
   vote (str ''v1'') (str ''t1'') db_proto0 (str ''p9'') (JStr (str ''u1'')) (JStr (str ''__proto__'')) =
     Inr (\<lparr>vote_poll_id = str ''p9'', vote_voter_id = str ''u1'', vote_option = str ''__proto__'',
           results_total_votes = 1, results_vote_counts = [(str ''A'', Count 0)]\<rparr>, db_proto) \<and>
   findOne db_proto (str ''p9'') =
     Inr \<lparr>the_poll = poll_proto, total_votes = 1, vote_counts = [(str ''A'', Count 0)],
          vote_percentages = [(str ''A'', Num 0)]\<rparr>"
  by code_simp

subsection \<open>The example stores\<close>

lemma get_poll_query:
  "get_poll d i = Some p \<Longrightarrow> query (polls d) (\<lambda>p. id_p p = i) 1 = [p]"
  "get_poll d i = None \<Longrightarrow> query (polls d) (\<lambda>p. id_p p = i) 1 = []"
  using query_get_poll[of d i] by simp_all

lemma get_poll_query_Suc:
  "get_poll d i = Some p \<Longrightarrow> query (polls d) (\<lambda>p. id_p p = i) (Suc 0) = [p]"
  "get_poll d i = None \<Longrightarrow> query (polls d) (\<lambda>p. id_p p = i) (Suc 0) = []"
  using query_get_poll[of d i] by simp_all

lemma findByPoll_create_vote:
  "findByPoll (d\<lparr>votes := votes d @ [stored_vote d new_id now i voter opt], next_oid := n\<rparr>) i =
   findByPoll d i @ [stored_vote d new_id now i voter opt]"
  by (simp add: findByPoll_def stored_vote_def)

lemma findByPoll_many: "findByPoll db_many (str ''p1'') = many_votes 1001"
  by (simp add: findByPoll_def db_many_def many_votes_def vote_of_def filter_map o_def)

lemma length_many: "length (many_votes n) = n"
  by (simp add: many_votes_def)

lemma drop_many: "drop 1000 (many_votes 1001) = [vote_of 1001 (voter_name 1001) (str ''A'')]"
  by (simp add: many_votes_def drop_map)

lemma distinct_many: "distinct (map oid_v (many_votes n))"
  by (simp add: many_votes_def vote_of_def o_def distinct_map inj_on_def)

lemma get_poll_many: "get_poll db_many (str ''p1'') = Some poll_AB"
  by (simp add: get_poll_def db_many_def poll_AB_def)

lemma findOne_stray:
  "findOne db_stray (str ''p1'') =
     Inr \<lparr>the_poll = poll_AB, total_votes = 1, vote_counts = [(str ''A'', Count 0), (str ''B'', Count 0)],
          vote_percentages = [(str ''A'', Num 0), (str ''B'', Num 0)]\<rparr>"
  by code_simp

lemma findOne_two:
  "findOne db_two (str ''p1'') =
     Inr \<lparr>the_poll = poll_AB, total_votes = 2, vote_counts = [(str ''A'', Count 1), (str ''B'', Count 1)],
          vote_percentages = [(str ''A'', Num 50), (str ''B'', Num 50)]\<rparr>"
  by code_simp

lemma findAll_two:
  "findAll db_two =
     [\<lparr>the_poll = poll_AB, total_votes = 2, vote_counts = [(str ''A'', Count 1), (str ''B'', Count 1)]\<rparr>]"
  by code_simp

lemma findOne_many_total: "map_sum id total_votes (findOne db_many (str ''p1'')) = Inr 1000"
  by (simp add: findOne_eq get_poll_many findByPoll_many length_many)

text \<open>
  C1 (as amended). For the poll that \<^verbatim>\<open>findOne\<close> answers with, and for every poll in the
  answer of \<^verbatim>\<open>findAll\<close>: \<open>total_votes\<close> is the number of votes the query returned, the
  smaller of 1000 and the number of stored votes of the poll. When no option of the poll
  is named \<^verbatim>\<open>__proto__\<close> and each returned vote names a declared option or a string that
  is no member of \<^verbatim>\<open>Object.prototype\<close>, the counts sum to the number of returned votes
  whose option the poll declares. So the sum of the counts, the total and the number of
  the poll's votes are the same number whenever the poll has at most 1000 stored votes,
  each of them names a declared option, and no option is named \<^verbatim>\<open>__proto__\<close>.
\<close>

theorem tally_sum_total:
  "(findOne d i = Inr r \<longrightarrow>
      total_votes r = min 1000 (length (findByPoll d i)) \<and>
      (str ''__proto__'' \<notin> set (options (the_poll r)) \<and>
       (\<forall>v \<in> set (take 1000 (findByPoll d i)).
          option v \<in> set (options (the_poll r)) \<or> option v \<notin> set Object_prototype) \<longrightarrow>
         counts_sum (vote_counts r) =
           Some (length (filter (\<lambda>v. option v \<in> set (options (the_poll r)))
                           (take 1000 (findByPoll d i))))) \<and>
      (str ''__proto__'' \<notin> set (options (the_poll r)) \<and> length (findByPoll d i) \<le> 1000 \<and>
       (\<forall>v \<in> set (findByPoll d i). option v \<in> set (options (the_poll r))) \<longrightarrow>
         counts_sum (vote_counts r) = Some (total_votes r) \<and>
         total_votes r = length (findByPoll d i))) \<and>
   (pc \<in> set (findAll d) \<longrightarrow>
      total_votes pc = min 1000 (length (findByPoll d (id_p (the_poll pc)))) \<and>
      (str ''__proto__'' \<notin> set (options (the_poll pc)) \<and>
       (\<forall>v \<in> set (take 1000 (findByPoll d (id_p (the_poll pc)))).
          option v \<in> set (options (the_poll pc)) \<or> option v \<notin> set Object_prototype) \<longrightarrow>
         counts_sum (vote_counts pc) =
           Some (length (filter (\<lambda>v. option v \<in> set (options (the_poll pc)))
                           (take 1000 (findByPoll d (id_p (the_poll pc))))))) \<and>
      (str ''__proto__'' \<notin> set (options (the_poll pc)) \<and>
       length (findByPoll d (id_p (the_poll pc))) \<le> 1000 \<and>
       (\<forall>v \<in> set (findByPoll d (id_p (the_poll pc))). option v \<in> set (options (the_poll pc))) \<longrightarrow>
         counts_sum (vote_counts pc) = Some (total_votes pc) \<and>
         total_votes pc = length (findByPoll d (id_p (the_poll pc)))))"
proof -
  have gen: "length (take 1000 xs) = min 1000 (length xs) \<and>
      (str ''__proto__'' \<notin> set opts \<and>
       (\<forall>v \<in> set (take 1000 xs). option v \<in> set opts \<or> option v \<notin> set Object_prototype) \<longrightarrow>
         counts_sum (voteCounts opts (take 1000 xs)) =
           Some (length (filter (\<lambda>v. option v \<in> set opts) (take 1000 xs)))) \<and>
      (str ''__proto__'' \<notin> set opts \<and> length xs \<le> 1000 \<and> (\<forall>v \<in> set xs. option v \<in> set opts) \<longrightarrow>
         counts_sum (voteCounts opts (take 1000 xs)) = Some (length (take 1000 xs)) \<and>
         length (take 1000 xs) = length xs)"
    for xs :: "vote list" and opts
  proof -
    have a: "counts_sum (voteCounts opts (take 1000 xs)) =
           Some (length (filter (\<lambda>v. option v \<in> set opts) (take 1000 xs)))"
      if "str ''__proto__'' \<notin> set opts"
        "\<forall>v \<in> set (take 1000 xs). option v \<in> set opts \<or> option v \<notin> set Object_prototype"
      using that by (rule tally_ordinary_keys(5))
    have b: "counts_sum (voteCounts opts (take 1000 xs)) = Some (length (take 1000 xs)) \<and>
         length (take 1000 xs) = length xs"
      if p: "str ''__proto__'' \<notin> set opts" and l: "length xs \<le> 1000"
        and all: "\<forall>v \<in> set xs. option v \<in> set opts"
    proof -
      from l have t: "take 1000 xs = xs" by simp
      from all have f: "filter (\<lambda>v. option v \<in> set opts) xs = xs"
        by (simp add: filter_id_conv)
      from all have "\<forall>v \<in> set xs. option v \<in> set opts \<or> option v \<notin> set Object_prototype"
        by blast
      from tally_ordinary_keys(5)[OF p this] show ?thesis by (simp add: t f)
    qed
    from a b show ?thesis by (simp add: min.commute)
  qed
  have f: "total_votes r = length (take 1000 (findByPoll d i)) \<and>
      vote_counts r = voteCounts (options (the_poll r)) (take 1000 (findByPoll d i))"
    if "findOne d i = Inr r"
    using that by (cases "get_poll d i") (auto simp: findOne_eq)
  have g: "total_votes pc = length (take 1000 (findByPoll d (id_p (the_poll pc)))) \<and>
      vote_counts pc =
        voteCounts (options (the_poll pc)) (take 1000 (findByPoll d (id_p (the_poll pc))))"
    if "pc \<in> set (findAll d)"
    using that by (auto dest!: findAll_member)
  show ?thesis
  proof (rule conjI; rule impI)
    assume a: "findOne d i = Inr r"
    from f[OF a] have tv: "total_votes r = length (take 1000 (findByPoll d i))"
      and vc: "vote_counts r = voteCounts (options (the_poll r)) (take 1000 (findByPoll d i))"
      by simp_all
    show "total_votes r = min 1000 (length (findByPoll d i)) \<and>
      (str ''__proto__'' \<notin> set (options (the_poll r)) \<and>
       (\<forall>v \<in> set (take 1000 (findByPoll d i)).
          option v \<in> set (options (the_poll r)) \<or> option v \<notin> set Object_prototype) \<longrightarrow>
         counts_sum (vote_counts r) =
           Some (length (filter (\<lambda>v. option v \<in> set (options (the_poll r)))
                           (take 1000 (findByPoll d i))))) \<and>
      (str ''__proto__'' \<notin> set (options (the_poll r)) \<and> length (findByPoll d i) \<le> 1000 \<and>
       (\<forall>v \<in> set (findByPoll d i). option v \<in> set (options (the_poll r))) \<longrightarrow>
         counts_sum (vote_counts r) = Some (total_votes r) \<and>
         total_votes r = length (findByPoll d i))"
      unfolding tv vc by (rule gen)
  next
    assume a: "pc \<in> set (findAll d)"
    from g[OF a] have tv: "total_votes pc = length (take 1000 (findByPoll d (id_p (the_poll pc))))"
      and vc: "vote_counts pc =
        voteCounts (options (the_poll pc)) (take 1000 (findByPoll d (id_p (the_poll pc))))"
      by simp_all
    show "total_votes pc = min 1000 (length (findByPoll d (id_p (the_poll pc)))) \<and>
      (str ''__proto__'' \<notin> set (options (the_poll pc)) \<and>
       (\<forall>v \<in> set (take 1000 (findByPoll d (id_p (the_poll pc)))).
          option v \<in> set (options (the_poll pc)) \<or> option v \<notin> set Object_prototype) \<longrightarrow>
         counts_sum (vote_counts pc) =
           Some (length (filter (\<lambda>v. option v \<in> set (options (the_poll pc)))
                           (take 1000 (findByPoll d (id_p (the_poll pc))))))) \<and>
      (str ''__proto__'' \<notin> set (options (the_poll pc)) \<and>
       length (findByPoll d (id_p (the_poll pc))) \<le> 1000 \<and>
       (\<forall>v \<in> set (findByPoll d (id_p (the_poll pc))). option v \<in> set (options (the_poll pc))) \<longrightarrow>
         counts_sum (vote_counts pc) = Some (total_votes pc) \<and>
         total_votes pc = length (findByPoll d (id_p (the_poll pc))))"
      unfolding tv vc by (rule gen)
  qed
qed

theorem tally_sum_total_witness:
  "findOne db_two (str ''p1'') =
     Inr \<lparr>the_poll = poll_AB, total_votes = 2, vote_counts = [(str ''A'', Count 1), (str ''B'', Count 1)],
          vote_percentages = [(str ''A'', Num 50), (str ''B'', Num 50)]\<rparr> \<and>
   findAll db_two =
     [\<lparr>the_poll = poll_AB, total_votes = 2, vote_counts = [(str ''A'', Count 1), (str ''B'', Count 1)]\<rparr>] \<and>
   counts_sum [(str ''A'', Count 1), (str ''B'', Count 1)] = Some 2 \<and>
   length (findByPoll db_two (str ''p1'')) = 2"
proof -
  have v: "findByPoll db_two (str ''p1'') = [vote_of 1 (str ''u1'') (str ''A''), vote_of 2 (str ''u2'') (str ''B'')]"
    by (simp add: findByPoll_def db_two_def vote_of_def)
  have h: "str ''__proto__'' \<notin> set (options poll_AB) \<and> length (findByPoll db_two (str ''p1'')) \<le> 1000 \<and>
       (\<forall>v \<in> set (findByPoll db_two (str ''p1'')). option v \<in> set (options poll_AB))"
    by (simp add: v vote_of_def poll_AB_def)
  then have h': "\<forall>v \<in> set (take 1000 (findByPoll db_two (str ''p1''))).
          option v \<in> set (options poll_AB) \<or> option v \<notin> set Object_prototype"
    by (simp add: v)
  have m: "\<lparr>the_poll = poll_AB, total_votes = 2, vote_counts = [(str ''A'', Count 1), (str ''B'', Count 1)]\<rparr>
           \<in> set (findAll db_two)"
    by (simp add: findAll_two)
  have i: "id_p poll_AB = str ''p1''" by (simp add: poll_AB_def)
  from tally_sum_total[of db_two "str ''p1''"
      "\<lparr>the_poll = poll_AB, total_votes = 2, vote_counts = [(str ''A'', Count 1), (str ''B'', Count 1)],
          vote_percentages = [(str ''A'', Num 50), (str ''B'', Num 50)]\<rparr>"
      "\<lparr>the_poll = poll_AB, total_votes = 2, vote_counts = [(str ''A'', Count 1), (str ''B'', Count 1)]\<rparr>"]
    findOne_two findAll_two h h' m i
  show ?thesis by simp
qed

theorem tally_sum_total_counterexample:
  "findOne db_stray (str ''p1'') =
     Inr \<lparr>the_poll = poll_AB, total_votes = 1, vote_counts = [(str ''A'', Count 0), (str ''B'', Count 0)],
          vote_percentages = [(str ''A'', Num 0), (str ''B'', Num 0)]\<rparr> \<and>
   counts_sum [(str ''A'', Count 0), (str ''B'', Count 0)] = Some 0 \<and>
   map_sum id total_votes (findOne db_many (str ''p1'')) = Inr 1000 \<and>
   length (findByPoll db_many (str ''p1'')) = 1001"
  using findOne_stray findOne_many_total by (simp add: findByPoll_many length_many)

section \<open>The limit on the votes read\<close>

lemma vote_eq:
  "vote new_id now d i (JStr voter) (JStr opt) =
   (if voter = [] then Inl (BadRequestException (str ''voter_id is required''))
    else if opt = [] then Inl (BadRequestException (str ''option is required''))
    else case get_poll d i of
      None \<Rightarrow> Inl (NotFoundException (str ''Poll not found''))
    | Some p \<Rightarrow>
        if status p \<noteq> str ''active'' then Inl (BadRequestException (str ''Poll is closed''))
        else if opt \<notin> set (options p) then
          Inl (BadRequestException (str ''Invalid option. Valid options: '' @ join (str '', '') (options p)))
        else
          (case findByPollAndVoter d i voter of
             e # es \<Rightarrow> Inl (BadRequestException (str ''Already voted: '' @ option e))
           | [] \<Rightarrow>
               Inr (\<lparr>vote_poll_id = i, vote_voter_id = voter, vote_option = opt,
                     results_total_votes =
                       length (take 1000 (findByPoll d i @ [stored_vote d new_id now i voter opt])),
                     results_vote_counts =
                       voteCounts (options p)
                         (take 1000 (findByPoll d i @ [stored_vote d new_id now i voter opt]))\<rparr>,
                    d\<lparr>votes := votes d @ [stored_vote d new_id now i voter opt],
                      next_oid := Suc (next_oid d)\<rparr>)))"
proof (cases "voter = [] \<or> opt = []")
  case True
  then show ?thesis by (auto simp: vote_def)
next
  case ne: False
  show ?thesis
  proof (cases "get_poll d i")
    case None
    with ne show ?thesis by (simp add: vote_def get_poll_query_Suc)
  next
    case (Some p)
    note q = get_poll_query(1)[OF Some]
    show ?thesis
    proof (cases "status p = str ''active'' \<and> opt \<in> set (options p)")
      case False
      with ne Some show ?thesis by (auto simp: vote_def get_poll_query_Suc)
    next
      case ok: True
      show ?thesis
      proof (cases "findByPollAndVoter d i voter")
        case Nil
        with ne Some ok vote_accepted[of voter opt d i p "[]" new_id now] q
        show ?thesis by simp
      next
        case (Cons e es)
        with ne Some ok vote_already[of voter opt d i p "[]" e es new_id now] q
        show ?thesis by simp
      qed
    qed
  qed
qed

lemma vote_Inr_poll:
  assumes "vote new_id now d i voter_in option_in = Inr (resp, d')"
  shows "\<exists>voter opt p. voter_in = JStr voter \<and> option_in = JStr opt \<and> get_poll d i = Some p \<and>
           d' = d\<lparr>votes := votes d @ [stored_vote d new_id now i voter opt],
                  next_oid := Suc (next_oid d)\<rparr> \<and>
           resp = \<lparr>vote_poll_id = i, vote_voter_id = voter, vote_option = opt,
                     results_total_votes =
                       length (take 1000 (findByPoll d i @ [stored_vote d new_id now i voter opt])),
                     results_vote_counts =
                       voteCounts (options p)
                         (take 1000 (findByPoll d i @ [stored_vote d new_id now i voter opt]))\<rparr>"
proof -
  from vote_Inr[OF assms] obtain voter opt where
    io: "voter_in = JStr voter" "option_in = JStr opt" by blast
  from assms[unfolded io vote_eq] show ?thesis
    unfolding io
    by (auto split: if_splits option.splits list.splits)
qed

lemma length_votes_after_remove:
  assumes "distinct (map oid_v xs)" and "set zs \<subseteq> set xs" and "distinct zs"
  shows "length (filter (\<lambda>v. oid_v v \<notin> oid_v ` set zs) xs) + length zs = length xs"
proof -
  from assms(1) have inj: "inj_on oid_v (set xs)" and dx: "distinct xs"
    by (simp_all add: distinct_map)
  have "filter (\<lambda>v. oid_v v \<in> oid_v ` set zs) xs = filter (\<lambda>v. v \<in> set zs) xs"
  proof (rule filter_cong[OF refl])
    fix v assume "v \<in> set xs"
    with inj assms(2) show "(oid_v v \<in> oid_v ` set zs) = (v \<in> set zs)"
      by (meson inj_on_image_mem_iff)
  qed
  moreover have "length (filter (\<lambda>v. v \<in> set zs) xs) = card ({v. v \<in> set zs} \<inter> set xs)"
    using dx by (rule distinct_length_filter)
  moreover have "{v. v \<in> set zs} \<inter> set xs = set zs" using assms(2) by auto
  moreover have "card (set zs) = length zs" using assms(3) by (rule distinct_card)
  ultimately have "length (filter (\<lambda>v. oid_v v \<in> oid_v ` set zs) xs) = length zs" by simp
  moreover have "length (filter (\<lambda>v. oid_v v \<in> oid_v ` set zs) xs) +
                 length (filter (\<lambda>v. \<not> oid_v v \<in> oid_v ` set zs) xs) = length xs"
    by (rule sum_length_filter_compl)
  ultimately show ?thesis by simp
qed

text \<open>
  C10. \<^verbatim>\<open>findOne\<close>, \<^verbatim>\<open>findAll\<close>, \<^verbatim>\<open>vote\<close> and \<^verbatim>\<open>remove\<close> read a poll's votes
  with \<^verbatim>\<open>limit: 1000\<close>: the reported total is the smaller of 1000 and the number of stored
  votes of the poll, the tally counts the first 1000 of them, and \<^verbatim>\<open>remove\<close> deletes the
  first 1000 and leaves the others in the store (\<^verbatim>\<open>_id\<close>s being unique), so that votes of
  the removed poll remain when it had more than 1000.
\<close>

theorem vote_reads_limited:
  "(findOne d i = Inr r \<longrightarrow>
      total_votes r = min 1000 (length (findByPoll d i)) \<and>
      vote_counts r = voteCounts (options (the_poll r)) (take 1000 (findByPoll d i))) \<and>
   (pc \<in> set (findAll d) \<longrightarrow>
      total_votes pc = min 1000 (length (findByPoll d (id_p (the_poll pc)))) \<and>
      vote_counts pc =
        voteCounts (options (the_poll pc)) (take 1000 (findByPoll d (id_p (the_poll pc))))) \<and>
   (vote new_id now d i voter_in option_in = Inr (resp, d') \<longrightarrow>
      results_total_votes resp = min 1000 (length (findByPoll d' i)) \<and>
      (\<exists>p. get_poll d i = Some p \<and>
           results_vote_counts resp = voteCounts (options p) (take 1000 (findByPoll d' i)))) \<and>
   (remove d i = Inr (rr, d'') \<and> distinct (map oid_v (votes d)) \<longrightarrow>
      votes_removed rr = min 1000 (length (findByPoll d i)) \<and>
      findByPoll d'' i = drop 1000 (findByPoll d i) \<and>
      length (votes d'') + min 1000 (length (findByPoll d i)) = length (votes d) \<and>
      (1000 < length (findByPoll d i) \<longrightarrow> findByPoll d'' i \<noteq> []))"
proof -
  have one: "findOne d i = Inr r \<Longrightarrow>
      total_votes r = min 1000 (length (findByPoll d i)) \<and>
      vote_counts r = voteCounts (options (the_poll r)) (take 1000 (findByPoll d i))"
    by (cases "get_poll d i") (auto simp: findOne_eq)
  have many: "pc \<in> set (findAll d) \<Longrightarrow>
      total_votes pc = min 1000 (length (findByPoll d (id_p (the_poll pc)))) \<and>
      vote_counts pc =
        voteCounts (options (the_poll pc)) (take 1000 (findByPoll d (id_p (the_poll pc))))"
    by (auto dest!: findAll_member)
  have v: "vote new_id now d i voter_in option_in = Inr (resp, d') \<Longrightarrow>
      results_total_votes resp = min 1000 (length (findByPoll d' i)) \<and>
      (\<exists>p. get_poll d i = Some p \<and>
           results_vote_counts resp = voteCounts (options p) (take 1000 (findByPoll d' i)))"
    by (auto dest!: vote_Inr_poll simp: findByPoll_create_vote)
  have rm: "votes_removed rr = min 1000 (length (findByPoll d i)) \<and>
      findByPoll d'' i = drop 1000 (findByPoll d i) \<and>
      length (votes d'') + min 1000 (length (findByPoll d i)) = length (votes d) \<and>
      (1000 < length (findByPoll d i) \<longrightarrow> findByPoll d'' i \<noteq> [])"
    if r: "remove d i = Inr (rr, d'')" and dist: "distinct (map oid_v (votes d))"
  proof -
    have a: "findByPoll d'' i = drop 1000 (findByPoll d i)"
      using dist r by (rule findByPoll_after_remove)
    from r have b: "votes_removed rr = min 1000 (length (findByPoll d i))"
      and c: "votes d'' =
          filter (\<lambda>v. oid_v v \<notin> oid_v ` set (take 1000 (findByPoll d i))) (votes d)"
      by (auto simp: remove_eq split: option.splits)
    have sub: "set (take 1000 (findByPoll d i)) \<subseteq> set (votes d)"
      by (auto simp: findByPoll_def dest: in_set_takeD)
    have "distinct (votes d)" using dist by (simp add: distinct_map)
    then have dz: "distinct (take 1000 (findByPoll d i))"
      by (simp add: findByPoll_def)
    from length_votes_after_remove[OF dist sub dz]
    have "length (votes d'') + min 1000 (length (findByPoll d i)) = length (votes d)"
      by (simp add: c min.commute)
    with a b show ?thesis by simp
  qed
  from one many v rm show ?thesis by blast
qed

lemma no_vote_w: "findByPollAndVoter db_many (str ''p1'') (str ''w'') = []"
  by (simp add: findByPollAndVoter_def db_many_def many_votes_def vote_of_def voter_name_def
      filter_empty_conv)

lemma findAll_many: "findAll db_many = [with_counts db_many poll_AB]"
  by (simp add: findAll_def query_def db_many_def)

theorem vote_reads_limited_witness:
  "length (findByPoll db_many (str ''p1'')) = 1001 \<and>
   map_sum id total_votes (findOne db_many (str ''p1'')) = Inr 1000 \<and>
   map total_votes (findAll db_many) = [1000] \<and>
   map_sum id (results_total_votes \<circ> fst)
     (vote (str ''v'') (str ''t'') db_many (str ''p1'') (JStr (str ''w'')) (JStr (str ''A''))) = Inr 1000 \<and>
   map_sum id (votes_removed \<circ> fst) (remove db_many (str ''p1'')) = Inr 1000 \<and>
   map_sum id (length \<circ> votes \<circ> snd) (remove db_many (str ''p1'')) = Inr 1"
proof -
  have len: "length (findByPoll db_many (str ''p1'')) = 1001"
    by (simp add: findByPoll_many length_many)
  obtain r where f: "findOne db_many (str ''p1'') = Inr r"
    by (simp add: findOne_eq get_poll_many)
  have m: "with_counts db_many poll_AB \<in> set (findAll db_many)"
    by (simp add: findAll_many)
  have p: "the_poll (with_counts db_many poll_AB) = poll_AB" "id_p poll_AB = str ''p1''"
    by (simp_all add: with_counts_eq poll_AB_def)
  obtain resp d' where v: "vote (str ''v'') (str ''t'') db_many (str ''p1'') (JStr (str ''w'')) (JStr (str ''A'')) = Inr (resp, d')"
    and d': "d' = db_many\<lparr>votes := votes db_many @ [stored_vote db_many (str ''v'') (str ''t'') (str ''p1'') (str ''w'') (str ''A'')],
                  next_oid := Suc (next_oid db_many)\<rparr>"
    by (simp add: vote_eq get_poll_many no_vote_w poll_AB_def)
  have len': "length (findByPoll d' (str ''p1'')) = 1002"
    unfolding d' by (simp add: findByPoll_create_vote len)
  obtain rr d'' where rm: "remove db_many (str ''p1'') = Inr (rr, d'')"
    by (simp add: remove_eq get_poll_many)
  have dist: "distinct (map oid_v (votes db_many))"
    by (simp add: db_many_def distinct_many)
  have lv: "length (votes db_many) = 1001" by (simp add: db_many_def length_many)
  from vote_reads_limited[of db_many "str ''p1''" r "with_counts db_many poll_AB" "str ''v''" "str ''t''"
      "JStr (str ''w'')" "JStr (str ''A'')" resp d' rr d''] f m v rm dist
  have "total_votes r = min 1000 (length (findByPoll db_many (str ''p1'')))"
    and "total_votes (with_counts db_many poll_AB) = min 1000 (length (findByPoll db_many (str ''p1'')))"
    and "results_total_votes resp = min 1000 (length (findByPoll d' (str ''p1'')))"
    and "votes_removed rr = min 1000 (length (findByPoll db_many (str ''p1'')))"
    and "length (votes d'') + min 1000 (length (findByPoll db_many (str ''p1''))) = length (votes db_many)"
    by (simp_all add: p)
  then show ?thesis
    by (simp add: len len' f v rm lv findAll_many)
qed

text \<open>
  C6 (as amended). \<^verbatim>\<open>remove\<close> on an id no poll has throws \<^verbatim>\<open>NotFoundException\<close>, before
  any delete. On an existing poll it deletes the first 1000 stored votes of the poll, then
  the poll record, and returns the number of votes it deleted; votes of other polls stay.
  Afterwards the poll's votes are those beyond the first 1000: none when the poll had at
  most 1000 votes.
\<close>

theorem remove_poll_votes:
  "(get_poll d i = None \<longrightarrow> remove d i = Inl (NotFoundException (str ''Poll not found''))) \<and>
   (get_poll d i = Some p \<and> distinct (map oid_v (votes d)) \<longrightarrow>
      (\<exists>r d'. remove d i = Inr (r, d') \<and>
         votes_removed r = min 1000 (length (findByPoll d i)) \<and>
         length (votes d') + votes_removed r = length (votes d) \<and>
         findByPoll d' i = drop 1000 (findByPoll d i) \<and>
         (length (findByPoll d i) \<le> 1000 \<longrightarrow> findByPoll d' i = []) \<and>
         (\<forall>j. j \<noteq> i \<longrightarrow> findByPoll d' j = findByPoll d j) \<and>
         polls d' = filter (\<lambda>q. oid_p q \<noteq> oid_p p) (polls d) \<and>
         p \<notin> set (polls d')))"
proof -
  have ex: "\<exists>r d'. remove d i = Inr (r, d') \<and>
         votes_removed r = min 1000 (length (findByPoll d i)) \<and>
         length (votes d') + votes_removed r = length (votes d) \<and>
         findByPoll d' i = drop 1000 (findByPoll d i) \<and>
         (length (findByPoll d i) \<le> 1000 \<longrightarrow> findByPoll d' i = []) \<and>
         (\<forall>j. j \<noteq> i \<longrightarrow> findByPoll d' j = findByPoll d j) \<and>
         polls d' = filter (\<lambda>q. oid_p q \<noteq> oid_p p) (polls d) \<and>
         p \<notin> set (polls d')"
    if g: "get_poll d i = Some p" and dist: "distinct (map oid_v (votes d))"
  proof -
    obtain r d' where rm: "remove d i = Inr (r, d')"
      and r: "votes_removed r = min 1000 (length (findByPoll d i))"
      and v: "votes d' =
          filter (\<lambda>v. oid_v v \<notin> oid_v ` set (take 1000 (findByPoll d i))) (votes d)"
      and ps: "polls d' = filter (\<lambda>q. oid_p q \<noteq> oid_p p) (polls d)"
      using g by (simp add: remove_eq)
    have a: "findByPoll d' i = drop 1000 (findByPoll d i)"
      using dist rm by (rule findByPoll_after_remove)
    have sub: "set (take 1000 (findByPoll d i)) \<subseteq> set (votes d)"
      by (auto simp: findByPoll_def dest: in_set_takeD)
    have "distinct (votes d)" using dist by (simp add: distinct_map)
    then have dz: "distinct (take 1000 (findByPoll d i))"
      by (simp add: findByPoll_def)
    from length_votes_after_remove[OF dist sub dz]
    have b: "length (votes d') + votes_removed r = length (votes d)"
      by (simp add: v r min.commute)
    have c: "\<forall>j. j \<noteq> i \<longrightarrow> findByPoll d' j = findByPoll d j"
      using other_votes_after_remove[OF rm _ dist] by blast
    have "p \<notin> set (polls d')" by (simp add: ps)
    with rm r a b c ps show ?thesis by simp
  qed
  show ?thesis
    using ex by (auto simp: remove_eq)
qed

lemma remove_many:
  "remove db_many (str ''p1'') =
     Inr (\<lparr>deleted_poll_id = str ''p1'', votes_removed = 1000\<rparr>,
          \<lparr>polls = [], votes = [vote_of 1001 (voter_name 1001) (str ''A'')], next_oid = 1002\<rparr>)"
proof -
  have dist: "distinct (map oid_v (many_votes 1001))" by (rule distinct_many)
  have "filter (\<lambda>v. oid_v v \<notin> oid_v ` set (take 1000 (many_votes 1001))) (many_votes 1001)
        = drop 1000 (many_votes 1001)"
    using dist by (rule filter_take_distinct)
  then show ?thesis
    by (simp add: remove_eq get_poll_many findByPoll_many length_many drop_many)
      (simp add: db_many_def poll_AB_def)
qed

theorem remove_poll_votes_counterexample:
  "remove db_many (str ''p1'') =
     Inr (\<lparr>deleted_poll_id = str ''p1'', votes_removed = 1000\<rparr>,
          \<lparr>polls = [], votes = [vote_of 1001 (voter_name 1001) (str ''A'')], next_oid = 1002\<rparr>) \<and>
   length (findByPoll db_many (str ''p1'')) = 1001 \<and>
   findByPoll \<lparr>polls = [], votes = [vote_of 1001 (voter_name 1001) (str ''A'')], next_oid = 1002\<rparr> (str ''p1'')
     = [vote_of 1001 (voter_name 1001) (str ''A'')]"
  using remove_many by (simp add: findByPoll_many length_many) (simp add: findByPoll_def vote_of_def)

theorem remove_poll_votes_witness:
  "remove db_two (str ''p1'') =
     Inr (\<lparr>deleted_poll_id = str ''p1'', votes_removed = 2\<rparr>, \<lparr>polls = [], votes = [], next_oid = 3\<rparr>) \<and>
   remove db_two (str ''p2'') = Inl (NotFoundException (str ''Poll not found'')) \<and>
   findByPoll \<lparr>polls = [], votes = [], next_oid = 3\<rparr> (str ''p1'') = []"
proof -
  have g: "get_poll db_two (str ''p1'') = Some poll_AB" "get_poll db_two (str ''p2'') = None"
    by (simp_all add: get_poll_def db_two_def poll_AB_def)
  have dist: "distinct (map oid_v (votes db_two))"
    by (simp add: db_two_def vote_of_def)
  have e: "remove db_two (str ''p1'') =
     Inr (\<lparr>deleted_poll_id = str ''p1'', votes_removed = 2\<rparr>, \<lparr>polls = [], votes = [], next_oid = 3\<rparr>)"
    by code_simp
  from remove_poll_votes[of db_two "str ''p1''" poll_AB] remove_poll_votes[of db_two "str ''p2''" poll_AB]
    g dist e
  show ?thesis by (simp add: findByPoll_def)
qed

section \<open>Closing a poll\<close>

lemma close_eq:
  "close now d i =
   (case get_poll d i of
      None \<Rightarrow> Inl (NotFoundException (str ''Poll not found''))
    | Some p \<Rightarrow>
        Inr (i, d\<lparr>polls := map (\<lambda>q. if oid_p q = oid_p p
                                      then q\<lparr>status := str ''closed'', closed_at := Some now\<rparr> else q)
                              (polls d)\<rparr>))"
  by (cases "get_poll d i") (simp_all add: close_def get_poll_query_Suc update_poll_def)

lemma close_PollsAPI_eq: "0 < client_limit \<Longrightarrow> close_PollsAPI client_limit now d i = close now d i"
proof -
  assume "0 < client_limit"
  then obtain n where n: "client_limit = Suc n" by (cases client_limit) auto
  show ?thesis
    by (cases "filter (\<lambda>p. id_p p = i) (polls d)")
      (simp_all add: close_PollsAPI_def close_def query_def n)
qed

lemma find_map_update:
  assumes "List.find (\<lambda>q. id_p q = i) ps = Some p" and "\<And>q. id_p (f q) = id_p q"
  shows "List.find (\<lambda>q. id_p q = i) (map (\<lambda>q. if oid_p q = oid_p p then f q else q) ps) = Some (f p)"
  using assms(1)
proof (induction ps)
  case Nil
  then show ?case by simp
next
  case (Cons a ps)
  show ?case
  proof (cases "id_p a = i")
    case True
    with Cons.prems have "a = p" by simp
    with True show ?thesis by (simp add: assms(2))
  next
    case False
    with Cons.prems have "List.find (\<lambda>q. id_p q = i) ps = Some p" by simp
    from Cons.IH[OF this] False show ?thesis by (simp add: assms(2))
  qed
qed

text \<open>
  C4 (as amended). \<^verbatim>\<open>close\<close> throws \<^verbatim>\<open>NotFoundException\<close> when no poll has the id.
  Otherwise it succeeds, whether the poll was active or already closed: the poll found
  under the id afterwards has status closed and \<open>closed_at\<close> the current time, and nothing
  else of the store changes. The \<^verbatim>\<open>close\<close> of PollsAPI behaves the same.
\<close>

theorem close_poll:
  "(get_poll d i = None \<longrightarrow> close now d i = Inl (NotFoundException (str ''Poll not found''))) \<and>
   (get_poll d i = Some p \<longrightarrow>
      (\<exists>d'. close now d i = Inr (i, d') \<and>
         get_poll d' i = Some (p\<lparr>status := str ''closed'', closed_at := Some now\<rparr>) \<and>
         votes d' = votes d \<and>
         polls d' = map (\<lambda>q. if oid_p q = oid_p p
                              then q\<lparr>status := str ''closed'', closed_at := Some now\<rparr> else q) (polls d))) \<and>
   (0 < client_limit \<longrightarrow> close_PollsAPI client_limit now d i = close now d i)"
proof -
  have "get_poll (d\<lparr>polls := map (\<lambda>q. if oid_p q = oid_p p
            then q\<lparr>status := str ''closed'', closed_at := Some now\<rparr> else q) (polls d)\<rparr>) i =
        Some (p\<lparr>status := str ''closed'', closed_at := Some now\<rparr>)"
    if "get_poll d i = Some p"
    using find_map_update[of i "polls d" p "\<lambda>q. q\<lparr>status := str ''closed'', closed_at := Some now\<rparr>"] that
    by (simp add: get_poll_def)
  then show ?thesis
    by (auto simp: close_eq close_PollsAPI_eq)
qed

theorem close_poll_counterexample:
  "close (str ''t9'') db_closed (str ''p1'') =
     Inr (str ''p1'', \<lparr>polls = [poll_AB\<lparr>status := str ''closed'', closed_at := Some (str ''t9'')\<rparr>], votes = [],
                   next_oid = 1\<rparr>) \<and>
   map status (polls db_closed) = [str ''closed'']"
  by (simp add: close_eq get_poll_def db_closed_def poll_AB_def)

theorem close_poll_witness:
  "close (str ''t9'') db_two (str ''p1'') =
     Inr (str ''p1'', db_two\<lparr>polls := [poll_AB\<lparr>status := str ''closed'', closed_at := Some (str ''t9'')\<rparr>]\<rparr>) \<and>
   close (str ''t9'') db_two (str ''p2'') = Inl (NotFoundException (str ''Poll not found'')) \<and>
   close_PollsAPI 100 (str ''t9'') db_two (str ''p1'') = close (str ''t9'') db_two (str ''p1'')"
proof -
  have g: "get_poll db_two (str ''p1'') = Some poll_AB" "get_poll db_two (str ''p2'') = None"
    by (simp_all add: get_poll_def db_two_def poll_AB_def)
  have l: "(0::nat) < 100" by simp
  have e: "close (str ''t9'') db_two (str ''p1'') =
     Inr (str ''p1'', db_two\<lparr>polls := [poll_AB\<lparr>status := str ''closed'', closed_at := Some (str ''t9'')\<rparr>]\<rparr>)"
    by (simp add: close_eq g) (simp add: db_two_def)
  from close_poll[of db_two "str ''p1''" "str ''t9''" poll_AB 100]
    close_poll[of db_two "str ''p2''" "str ''t9''" poll_AB 100] g l e
  show ?thesis by simp
qed

section \<open>The checks of a vote\<close>

lemma findByPollAndVoter_member:
  "e \<in> set (findByPollAndVoter d i voter) \<Longrightarrow> poll_id e = i \<and> voter_id e = voter \<and> e \<in> set (votes d)"
  by (simp add: findByPollAndVoter_def)

text \<open>
  C2 (as amended). Once the poll is found (and \<^verbatim>\<open>voter_id\<close> and \<^verbatim>\<open>option\<close> are non-empty strings),
  \<^verbatim>\<open>vote\<close> checks in this order: a poll that is not active is refused with "Poll is
  closed", whatever the option and the earlier votes; otherwise an option the poll does not
  declare is refused with "Invalid option. ...", whatever the earlier votes; otherwise a
  voter with a stored vote on the poll is refused with "Already voted: " followed by the
  option of that vote; only otherwise the vote record is built and appended to the store.
  The service throws \<^verbatim>\<open>BadRequestException\<close> (HTTP 400) in all three refusals: the
  error kinds of the spec, ConflictError and ValidationError, are not separate classes in
  the code.
\<close>

theorem vote_validation_gate:
  "get_poll d i = Some p \<and> voter \<noteq> [] \<and> opt \<noteq> [] \<longrightarrow>
     (status p \<noteq> str ''active'' \<longrightarrow>
        vote new_id now d i (JStr voter) (JStr opt) = Inl (BadRequestException (str ''Poll is closed''))) \<and>
     (status p = str ''active'' \<and> opt \<notin> set (options p) \<longrightarrow>
        vote new_id now d i (JStr voter) (JStr opt) =
          Inl (BadRequestException (str ''Invalid option. Valid options: '' @ join (str '', '') (options p)))) \<and>
     (status p = str ''active'' \<and> opt \<in> set (options p) \<and> findByPollAndVoter d i voter \<noteq> [] \<longrightarrow>
        vote new_id now d i (JStr voter) (JStr opt) =
          Inl (BadRequestException
                 (str ''Already voted: '' @ option (hd (findByPollAndVoter d i voter)))) \<and>
        hd (findByPollAndVoter d i voter) \<in> set (votes d) \<and>
        poll_id (hd (findByPollAndVoter d i voter)) = i \<and>
        voter_id (hd (findByPollAndVoter d i voter)) = voter) \<and>
     (status p = str ''active'' \<and> opt \<in> set (options p) \<and> findByPollAndVoter d i voter = [] \<longrightarrow>
        (\<exists>resp. vote new_id now d i (JStr voter) (JStr opt) =
           Inr (resp, d\<lparr>votes := votes d @ [stored_vote d new_id now i voter opt],
                        next_oid := Suc (next_oid d)\<rparr>))) \<and>
     ((\<exists>resp d'. vote new_id now d i (JStr voter) (JStr opt) = Inr (resp, d')) \<longrightarrow>
        status p = str ''active'' \<and> opt \<in> set (options p) \<and> findByPollAndVoter d i voter = [])"
proof (intro impI)
  assume a: "get_poll d i = Some p \<and> voter \<noteq> [] \<and> opt \<noteq> []"
  have prior: "hd (findByPollAndVoter d i voter) \<in> set (votes d) \<and>
        poll_id (hd (findByPollAndVoter d i voter)) = i \<and>
        voter_id (hd (findByPollAndVoter d i voter)) = voter"
    if "findByPollAndVoter d i voter \<noteq> []"
    using that findByPollAndVoter_member[of "hd (findByPollAndVoter d i voter)" d i voter]
    by simp
  show "(status p \<noteq> str ''active'' \<longrightarrow>
        vote new_id now d i (JStr voter) (JStr opt) = Inl (BadRequestException (str ''Poll is closed''))) \<and>
     (status p = str ''active'' \<and> opt \<notin> set (options p) \<longrightarrow>
        vote new_id now d i (JStr voter) (JStr opt) =
          Inl (BadRequestException (str ''Invalid option. Valid options: '' @ join (str '', '') (options p)))) \<and>
     (status p = str ''active'' \<and> opt \<in> set (options p) \<and> findByPollAndVoter d i voter \<noteq> [] \<longrightarrow>
        vote new_id now d i (JStr voter) (JStr opt) =
          Inl (BadRequestException
                 (str ''Already voted: '' @ option (hd (findByPollAndVoter d i voter)))) \<and>
        hd (findByPollAndVoter d i voter) \<in> set (votes d) \<and>
        poll_id (hd (findByPollAndVoter d i voter)) = i \<and>
        voter_id (hd (findByPollAndVoter d i voter)) = voter) \<and>
     (status p = str ''active'' \<and> opt \<in> set (options p) \<and> findByPollAndVoter d i voter = [] \<longrightarrow>
        (\<exists>resp. vote new_id now d i (JStr voter) (JStr opt) =
           Inr (resp, d\<lparr>votes := votes d @ [stored_vote d new_id now i voter opt],
                        next_oid := Suc (next_oid d)\<rparr>))) \<and>
     ((\<exists>resp d'. vote new_id now d i (JStr voter) (JStr opt) = Inr (resp, d')) \<longrightarrow>
        status p = str ''active'' \<and> opt \<in> set (options p) \<and> findByPollAndVoter d i voter = [])"
    using a prior
    by (cases "findByPollAndVoter d i voter") (simp_all add: vote_eq)
qed

theorem vote_validation_gate_witness:
  "vote (str ''v9'') (str ''t9'') db_closed (str ''p1'') (JStr (str ''u1'')) (JStr (str ''A'')) =
     Inl (BadRequestException (str ''Poll is closed'')) \<and>
   vote (str ''v9'') (str ''t9'') db_closed (str ''p1'') (JStr (str ''u1'')) (JStr (str ''C'')) =
     Inl (BadRequestException (str ''Poll is closed'')) \<and>
   vote (str ''v9'') (str ''t9'') db_two (str ''p1'') (JStr (str ''u1'')) (JStr (str ''C'')) =
     Inl (BadRequestException (str ''Invalid option. Valid options: A, B'')) \<and>
   vote (str ''v9'') (str ''t9'') db_two (str ''p1'') (JStr (str ''u1'')) (JStr (str ''B'')) =
     Inl (BadRequestException (str ''Already voted: A'')) \<and>
   map_sum id snd (vote (str ''v9'') (str ''t9'') db_two (str ''p1'') (JStr (str ''u3'')) (JStr (str ''B''))) =
     Inr \<lparr>polls = [poll_AB],
          votes = [vote_of 1 (str ''u1'') (str ''A''), vote_of 2 (str ''u2'') (str ''B''),
                   \<lparr>oid_v = 3, id_v = str ''v9'', poll_id = str ''p1'', voter_id = str ''u3'', option = str ''B'',
                    voted_at = str ''t9''\<rparr>],
          next_oid = 4\<rparr>"
proof -
  have g: "get_poll db_closed (str ''p1'') = Some (poll_AB\<lparr>status := str ''closed'', closed_at := Some (str ''t5'')\<rparr>)"
    "get_poll db_two (str ''p1'') = Some poll_AB"
    by (simp_all add: get_poll_def db_two_def db_closed_def poll_AB_def)
  have s: "status (poll_AB\<lparr>status := str ''closed'', closed_at := Some (str ''t5'')\<rparr>) \<noteq> str ''active''"
    "status poll_AB = str ''active''" "options poll_AB = [str ''A'', str ''B'']"
    by (simp_all add: poll_AB_def)
  have f: "findByPollAndVoter db_two (str ''p1'') (str ''u1'') = [vote_of 1 (str ''u1'') (str ''A'')]"
    "findByPollAndVoter db_two (str ''p1'') (str ''u3'') = []"
    by (simp_all add: findByPollAndVoter_def db_two_def vote_of_def)
  have c1: "vote (str ''v9'') (str ''t9'') db_closed (str ''p1'') (JStr (str ''u1'')) (JStr (str ''A'')) =
     Inl (BadRequestException (str ''Poll is closed''))"
    using vote_validation_gate[of db_closed "str ''p1''"
        "poll_AB\<lparr>status := str ''closed'', closed_at := Some (str ''t5'')\<rparr>" "str ''u1''" "str ''A''" "str ''v9''" "str ''t9''"]
      g(1) s(1) by simp
  have c2: "vote (str ''v9'') (str ''t9'') db_closed (str ''p1'') (JStr (str ''u1'')) (JStr (str ''C'')) =
     Inl (BadRequestException (str ''Poll is closed''))"
    using vote_validation_gate[of db_closed "str ''p1''"
        "poll_AB\<lparr>status := str ''closed'', closed_at := Some (str ''t5'')\<rparr>" "str ''u1''" "str ''C''" "str ''v9''" "str ''t9''"]
      g(1) s(1) by simp
  have c3: "vote (str ''v9'') (str ''t9'') db_two (str ''p1'') (JStr (str ''u1'')) (JStr (str ''C'')) =
     Inl (BadRequestException (str ''Invalid option. Valid options: A, B''))"
    using vote_validation_gate[of db_two "str ''p1''" poll_AB "str ''u1''" "str ''C''" "str ''v9''" "str ''t9''"]
      g(2) s(2,3) by (simp add: str_append[symmetric])
  have c4: "vote (str ''v9'') (str ''t9'') db_two (str ''p1'') (JStr (str ''u1'')) (JStr (str ''B'')) =
     Inl (BadRequestException (str ''Already voted: A''))"
    using vote_validation_gate[of db_two "str ''p1''" poll_AB "str ''u1''" "str ''B''" "str ''v9''" "str ''t9''"]
      g(2) s(2,3) f(1) by (simp add: vote_of_def str_append[symmetric])
  have "\<exists>resp. vote (str ''v9'') (str ''t9'') db_two (str ''p1'') (JStr (str ''u3'')) (JStr (str ''B'')) =
     Inr (resp, db_two\<lparr>votes := votes db_two @ [stored_vote db_two (str ''v9'') (str ''t9'') (str ''p1'') (str ''u3'') (str ''B'')],
                        next_oid := Suc (next_oid db_two)\<rparr>)"
    using vote_validation_gate[of db_two "str ''p1''" poll_AB "str ''u3''" "str ''B''" "str ''v9''" "str ''t9''"]
      g(2) s(2,3) f(2) by simp
  then obtain resp where "vote (str ''v9'') (str ''t9'') db_two (str ''p1'') (JStr (str ''u3'')) (JStr (str ''B'')) =
     Inr (resp, db_two\<lparr>votes := votes db_two @ [stored_vote db_two (str ''v9'') (str ''t9'') (str ''p1'') (str ''u3'') (str ''B'')],
                        next_oid := Suc (next_oid db_two)\<rparr>)" ..
  then have c5: "map_sum id snd (vote (str ''v9'') (str ''t9'') db_two (str ''p1'') (JStr (str ''u3'')) (JStr (str ''B''))) =
     Inr \<lparr>polls = [poll_AB],
          votes = [vote_of 1 (str ''u1'') (str ''A''), vote_of 2 (str ''u2'') (str ''B''),
                   \<lparr>oid_v = 3, id_v = str ''v9'', poll_id = str ''p1'', voter_id = str ''u3'', option = str ''B'',
                    voted_at = str ''t9''\<rparr>],
          next_oid = 4\<rparr>"
    by (simp add: stored_vote_def db_two_def)
  from c1 c2 c3 c4 c5 show ?thesis by blast
qed

theorem vote_validation_gate_counterexample:
  "vote (str ''v9'') (str ''t9'') db_closed (str ''p1'') (JStr (str ''u1'')) (JStr (str ''A'')) =
     Inl (BadRequestException (str ''Poll is closed'')) \<and>
   vote (str ''v9'') (str ''t9'') db_two (str ''p1'') (JStr (str ''u1'')) (JStr (str ''C'')) =
     Inl (BadRequestException (str ''Invalid option. Valid options: A, B'')) \<and>
   vote (str ''v9'') (str ''t9'') db_two (str ''p1'') (JStr (str ''u1'')) (JStr (str ''B'')) =
     Inl (BadRequestException (str ''Already voted: A'')) \<and>
   vote (str ''v9'') (str ''t9'') db_two (str ''p1'') (JStr (str ''u1'')) JNull =
     Inl (BadRequestException (str ''option is required''))"
  by code_simp

text \<open>
  C3. If every pair of a poll and a voter has at most one stored vote, it still has at most
  one after any sequence of \<^verbatim>\<open>vote\<close> requests handled one after the other; and a request
  by a voter who has a vote on the poll fails and leaves the store as it was.
\<close>

theorem one_vote_per_voter_preserved:
  "(\<forall>pid vid. length (findByPollAndVoter d pid vid) \<le> 1) \<longrightarrow>
     length (findByPollAndVoter (vote_all d rs) pid' vid') \<le> 1 \<and>
     (req_voter r = JStr voter \<and> findByPollAndVoter d (req_poll r) voter \<noteq> [] \<longrightarrow>
        (\<exists>e. vote (req_new_id r) (req_now r) d (req_poll r) (req_voter r) (req_option r) = Inl e) \<and>
        vote_step d r = d)"
proof
  assume "\<forall>pid vid. length (findByPollAndVoter d pid vid) \<le> 1"
  then have "one_vote_per_voter d" by (simp add: one_vote_per_voter_iff)
  then have "one_vote_per_voter (vote_all d rs)" by (rule vote_all_inv)
  then have a: "length (findByPollAndVoter (vote_all d rs) pid' vid') \<le> 1"
    by (simp add: one_vote_per_voter_iff)
  have b: "(\<exists>e. vote (req_new_id r) (req_now r) d (req_poll r) (req_voter r) (req_option r) = Inl e) \<and>
        vote_step d r = d"
    if v: "req_voter r = JStr voter" and f: "findByPollAndVoter d (req_poll r) voter \<noteq> []"
  proof (cases "vote (req_new_id r) (req_now r) d (req_poll r) (req_voter r) (req_option r)")
    case (Inl e)
    then show ?thesis by (simp add: vote_step_def)
  next
    case (Inr x)
    obtain resp d' where x: "x = (resp, d')" by (cases x)
    from vote_Inr[OF Inr[unfolded x]] v f show ?thesis by auto
  qed
  from a b show "length (findByPollAndVoter (vote_all d rs) pid' vid') \<le> 1 \<and>
     (req_voter r = JStr voter \<and> findByPollAndVoter d (req_poll r) voter \<noteq> [] \<longrightarrow>
        (\<exists>e. vote (req_new_id r) (req_now r) d (req_poll r) (req_voter r) (req_option r) = Inl e) \<and>
        vote_step d r = d)" by blast
qed

theorem one_vote_per_voter_preserved_witness:
  "votes (vote_all db_two
       [\<lparr>req_new_id = str ''v3'', req_now = str ''t3'', req_poll = str ''p1'', req_voter = JStr (str ''u1''),
         req_option = JStr (str ''B'')\<rparr>,
        \<lparr>req_new_id = str ''v4'', req_now = str ''t4'', req_poll = str ''p1'', req_voter = JStr (str ''u3''),
         req_option = JStr (str ''A'')\<rparr>,
        \<lparr>req_new_id = str ''v5'', req_now = str ''t5'', req_poll = str ''p1'', req_voter = JStr (str ''u3''),
         req_option = JStr (str ''B'')\<rparr>]) =
     [vote_of 1 (str ''u1'') (str ''A''), vote_of 2 (str ''u2'') (str ''B''),
      \<lparr>oid_v = 3, id_v = str ''v4'', poll_id = str ''p1'', voter_id = str ''u3'', option = str ''A'',
       voted_at = str ''t4''\<rparr>] \<and>
   length (findByPollAndVoter (vote_all db_two
       [\<lparr>req_new_id = str ''v3'', req_now = str ''t3'', req_poll = str ''p1'', req_voter = JStr (str ''u1''),
         req_option = JStr (str ''B'')\<rparr>,
        \<lparr>req_new_id = str ''v4'', req_now = str ''t4'', req_poll = str ''p1'', req_voter = JStr (str ''u3''),
         req_option = JStr (str ''A'')\<rparr>,
        \<lparr>req_new_id = str ''v5'', req_now = str ''t5'', req_poll = str ''p1'', req_voter = JStr (str ''u3''),
         req_option = JStr (str ''B'')\<rparr>]) (str ''p1'') (str ''u3'')) \<le> 1 \<and>
   vote_step db_two
     \<lparr>req_new_id = str ''v3'', req_now = str ''t3'', req_poll = str ''p1'', req_voter = JStr (str ''u1''),
      req_option = JStr (str ''B'')\<rparr> = db_two"
proof -
  have "one_vote_per_voter db_two"
    by (simp add: one_vote_per_voter_def db_two_def vote_of_def)
  then have h: "\<forall>pid vid. length (findByPollAndVoter db_two pid vid) \<le> 1"
    by (simp add: one_vote_per_voter_iff)
  have f: "findByPollAndVoter db_two (str ''p1'') (str ''u1'') \<noteq> []"
    by (simp add: findByPollAndVoter_def db_two_def vote_of_def)
  have e: "votes (vote_all db_two
       [\<lparr>req_new_id = str ''v3'', req_now = str ''t3'', req_poll = str ''p1'', req_voter = JStr (str ''u1''),
         req_option = JStr (str ''B'')\<rparr>,
        \<lparr>req_new_id = str ''v4'', req_now = str ''t4'', req_poll = str ''p1'', req_voter = JStr (str ''u3''),
         req_option = JStr (str ''A'')\<rparr>,
        \<lparr>req_new_id = str ''v5'', req_now = str ''t5'', req_poll = str ''p1'', req_voter = JStr (str ''u3''),
         req_option = JStr (str ''B'')\<rparr>]) =
     [vote_of 1 (str ''u1'') (str ''A''), vote_of 2 (str ''u2'') (str ''B''),
      \<lparr>oid_v = 3, id_v = str ''v4'', poll_id = str ''p1'', voter_id = str ''u3'', option = str ''A'',
       voted_at = str ''t4''\<rparr>]"
    by code_simp
  from one_vote_per_voter_preserved[of db_two
       "[\<lparr>req_new_id = str ''v3'', req_now = str ''t3'', req_poll = str ''p1'', req_voter = JStr (str ''u1''),
         req_option = JStr (str ''B'')\<rparr>,
        \<lparr>req_new_id = str ''v4'', req_now = str ''t4'', req_poll = str ''p1'', req_voter = JStr (str ''u3''),
         req_option = JStr (str ''A'')\<rparr>,
        \<lparr>req_new_id = str ''v5'', req_now = str ''t5'', req_poll = str ''p1'', req_voter = JStr (str ''u3''),
         req_option = JStr (str ''B'')\<rparr>]" "str ''p1''" "str ''u3''"
       "\<lparr>req_new_id = str ''v3'', req_now = str ''t3'', req_poll = str ''p1'', req_voter = JStr (str ''u1''),
      req_option = JStr (str ''B'')\<rparr>" "str ''u1''"] h f e
  show ?thesis by simp
qed

section \<open>Creating a poll\<close>

lemma trim_all_strings: "trim_all (map JStr ss) = Some (map trim ss)"
  by (induction ss) simp_all

lemma trim_edges: "trim s = [] \<or> (\<not> is_space (hd (trim s)) \<and> \<not> is_space (last (trim s)))"
proof (cases "trim s = []")
  case True
  then show ?thesis by simp
next
  case False
  let ?a = "dropWhile is_space s"
  let ?b = "dropWhile is_space (rev ?a)"
  from False have b: "?b \<noteq> []" by (simp add: trim_def)
  then have hb: "\<not> is_space (hd ?b)" by (rule hd_dropWhile)
  have a: "?a \<noteq> []"
  proof
    assume "?a = []"
    then have "?b = []" by (simp only: rev.simps dropWhile.simps)
    with b show False by contradiction
  qed
  then have ha: "\<not> is_space (hd ?a)" by (rule hd_dropWhile)
  have "rev ?a = takeWhile is_space (rev ?a) @ ?b" by simp
  then have "last (rev ?a) = last ?b" using b by (metis last_appendR)
  moreover have "last (rev ?a) = hd ?a" using a by (simp add: last_rev)
  moreover have "hd (trim s) = last ?b" using b by (simp add: trim_def hd_rev)
  moreover have "last (trim s) = hd ?b" using b by (simp add: trim_def last_rev)
  ultimately show ?thesis using ha hb by simp
qed

lemma required_string_None: "required_string x = None \<longleftrightarrow> (\<forall>s. x = JStr s \<longrightarrow> s = [])"
  by (cases x) auto

text \<open>
  C5 (as amended). \<^verbatim>\<open>create\<close> throws \<^verbatim>\<open>BadRequestException\<close> when the question is not a
  non-empty string, when \<^verbatim>\<open>options\<close> is not an array of at least 2 entries, and when it
  has more than 10. Every other request whose options are strings and whose category is
  absent, \<^verbatim>\<open>null\<close> or a string is accepted, also one whose options repeat or are empty
  after trimming: the stored poll has the trimmed question, the trimmed options in their
  order, status active, and as category the trimmed category of the request, or "General"
  when the request has none or one that is empty after trimming. A trimmed string neither
  starts nor ends with white space; a no-break space and an ideographic space are trimmed
  like a blank.
\<close>

theorem create_validation:
  "((\<forall>s. question_in = JStr s \<longrightarrow> s = []) \<longrightarrow>
      create new_id now d question_in options_in category_in expires_in =
        Inl (BadRequestException (str ''Question is required''))) \<and>
   (q \<noteq> [] \<and> (\<forall>os. options_in = JArr os \<longrightarrow> length os < 2) \<longrightarrow>
      create new_id now d (JStr q) options_in category_in expires_in =
        Inl (BadRequestException (str ''At least 2 options are required''))) \<and>
   (q \<noteq> [] \<and> 10 < length os \<longrightarrow>
      create new_id now d (JStr q) (JArr os) category_in expires_in =
        Inl (BadRequestException (str ''Maximum 10 options allowed''))) \<and>
   (q \<noteq> [] \<and> 2 \<le> length ss \<and> length ss \<le> 10 \<and>
    (category_in = JUndefined \<or> category_in = JNull \<or> category_in = JStr c) \<longrightarrow>
      (\<exists>resp. create new_id now d (JStr q) (JArr (map JStr ss)) category_in expires_in =
         Inr (resp,
              d\<lparr>polls := polls d @
                   [\<lparr>oid_p = next_oid d, id_p = new_id, question = trim q,
                     options = map trim ss,
                     category = Some (if category_in = JStr c \<and> trim c \<noteq> [] then trim c
                                      else str ''General''),
                     created_at = now,
                     expires_at = (if truthy expires_in then expires_in else JNull),
                     status = str ''active'', closed_at = None\<rparr>],
                next_oid := Suc (next_oid d)\<rparr>)) \<and>
      (\<forall>x \<in> set (trim q # map trim ss).
         x = [] \<or> (\<not> is_space (hd x) \<and> \<not> is_space (last x)))) \<and>
   trim [0x00A0, 0x0041, 0x0020, 0x0042, 0x3000] = [0x0041, 0x0020, 0x0042]"
proof -
  have a: "create new_id now d question_in options_in category_in expires_in =
        Inl (BadRequestException (str ''Question is required''))"
    if "\<forall>s. question_in = JStr s \<longrightarrow> s = []"
    using that by (simp add: create_def required_string_None[symmetric])
  have b: "create new_id now d (JStr q) options_in category_in expires_in =
        Inl (BadRequestException (str ''At least 2 options are required''))"
    if "q \<noteq> []" "\<forall>os. options_in = JArr os \<longrightarrow> length os < 2"
    using that by (cases options_in) (simp_all add: create_def)
  have c: "create new_id now d (JStr q) (JArr os) category_in expires_in =
        Inl (BadRequestException (str ''Maximum 10 options allowed''))"
    if "q \<noteq> []" "10 < length os"
    using that by (simp add: create_def)
  have e: "\<exists>resp. create new_id now d (JStr q) (JArr (map JStr ss)) category_in expires_in =
         Inr (resp,
              d\<lparr>polls := polls d @
                   [\<lparr>oid_p = next_oid d, id_p = new_id, question = trim q,
                     options = map trim ss,
                     category = Some (if category_in = JStr c \<and> trim c \<noteq> [] then trim c
                                      else str ''General''),
                     created_at = now,
                     expires_at = (if truthy expires_in then expires_in else JNull),
                     status = str ''active'', closed_at = None\<rparr>],
                next_oid := Suc (next_oid d)\<rparr>)"
    if "q \<noteq> []" "2 \<le> length ss" "length ss \<le> 10"
      "category_in = JUndefined \<or> category_in = JNull \<or> category_in = JStr c"
    using that by (auto simp add: create_def trim_all_strings create_poll_def Let_def)
  have t: "\<forall>x \<in> set (trim q # map trim ss).
         x = [] \<or> (\<not> is_space (hd x) \<and> \<not> is_space (last x))"
    using trim_edges by auto
  have u: "trim [0x00A0, 0x0041, 0x0020, 0x0042, 0x3000] = [0x0041, 0x0020, 0x0042]"
    by code_simp
  from a b c e t u show ?thesis by simp
qed

theorem create_validation_counterexample:
  "map_sum id snd
     (create (str ''p2'') (str ''t2'') \<lparr>polls = [], votes = [], next_oid = 0\<rparr>
        (JStr (str ''Q'')) (JArr [JStr (str ''A''), JStr (str '' A ''), JStr (str ''  '')]) JUndefined JUndefined) =
   Inr \<lparr>polls = [\<lparr>oid_p = 0, id_p = str ''p2'', question = str ''Q'', options = [str ''A'', str ''A'', str ''''],
                   category = Some (str ''General''), created_at = str ''t2'', expires_at = JNull,
                   status = str ''active'', closed_at = None\<rparr>],
        votes = [], next_oid = 1\<rparr>"
  by code_simp

theorem create_validation_witness:
  "create (str ''p2'') (str ''t2'') db_two (JStr (str '''')) (JArr [JStr (str ''A''), JStr (str ''B'')]) JUndefined JUndefined =
     Inl (BadRequestException (str ''Question is required'')) \<and>
   create (str ''p2'') (str ''t2'') db_two JNull (JArr [JStr (str ''A''), JStr (str ''B'')]) JUndefined JUndefined =
     Inl (BadRequestException (str ''Question is required'')) \<and>
   create (str ''p2'') (str ''t2'') db_two (JStr (str ''Q'')) (JArr [JStr (str ''A'')]) JUndefined JUndefined =
     Inl (BadRequestException (str ''At least 2 options are required'')) \<and>
   create (str ''p2'') (str ''t2'') db_two (JStr (str ''Q'')) (JArr (replicate 11 (JStr (str ''A'')))) JUndefined JUndefined =
     Inl (BadRequestException (str ''Maximum 10 options allowed'')) \<and>
   map_sum id (polls \<circ> snd)
     (create (str ''p2'') (str ''t2'') db_two (JStr (str '' Q '')) (JArr (map JStr [str '' X'', str ''Y '']))
        (JStr (str '' Zoo '')) JUndefined) =
     Inr [poll_AB,
          \<lparr>oid_p = 3, id_p = str ''p2'', question = str ''Q'', options = [str ''X'', str ''Y''],
            category = Some (str ''Zoo''), created_at = str ''t2'', expires_at = JNull,
            status = str ''active'', closed_at = None\<rparr>] \<and>
   map_sum id (map category \<circ> polls \<circ> snd)
     (create (str ''p2'') (str ''t2'') db_two (JStr (str '' Q '')) (JArr (map JStr [str '' X'', str ''Y '']))
        (JStr (str ''  '')) JUndefined) =
     Inr [Some (str ''General''), Some (str ''General'')]"
proof -
  have c1: "create (str ''p2'') (str ''t2'') db_two (JStr (str '''')) (JArr [JStr (str ''A''), JStr (str ''B'')]) JUndefined JUndefined =
     Inl (BadRequestException (str ''Question is required''))"
    using create_validation[of "JStr (str '''')" "str ''p2''" "str ''t2''" db_two "JArr [JStr (str ''A''), JStr (str ''B'')]"
        JUndefined JUndefined "str ''Q''" "[]" "[]" "str ''General''"] by simp
  have c2: "create (str ''p2'') (str ''t2'') db_two JNull (JArr [JStr (str ''A''), JStr (str ''B'')]) JUndefined JUndefined =
     Inl (BadRequestException (str ''Question is required''))"
    using create_validation[of "JNull" "str ''p2''" "str ''t2''" db_two "JArr [JStr (str ''A''), JStr (str ''B'')]"
        JUndefined JUndefined "str ''Q''" "[]" "[]" "str ''General''"] by simp
  have c3: "create (str ''p2'') (str ''t2'') db_two (JStr (str ''Q'')) (JArr [JStr (str ''A'')]) JUndefined JUndefined =
     Inl (BadRequestException (str ''At least 2 options are required''))"
    using create_validation[of "JNull" "str ''p2''" "str ''t2''" db_two "JArr [JStr (str ''A'')]"
        JUndefined JUndefined "str ''Q''" "[]" "[]" "str ''General''"] by simp
  have c4: "create (str ''p2'') (str ''t2'') db_two (JStr (str ''Q'')) (JArr (replicate 11 (JStr (str ''A'')))) JUndefined JUndefined =
     Inl (BadRequestException (str ''Maximum 10 options allowed''))"
    using create_validation[of "JNull" "str ''p2''" "str ''t2''" db_two "JNull"
        JUndefined JUndefined "str ''Q''" "replicate 11 (JStr (str ''A''))" "[]" "str ''General''"] by simp
  have tr: "trim (str '' Q '') = str ''Q''" "trim (str '' X'') = str ''X''" "trim (str ''Y '') = str ''Y''"
    "trim (str '' Zoo '') = str ''Zoo''" "trim (str ''  '') = []"
    by code_simp+
  have "\<exists>resp. create (str ''p2'') (str ''t2'') db_two (JStr (str '' Q '')) (JArr (map JStr [str '' X'', str ''Y '']))
           (JStr (str '' Zoo '')) JUndefined =
         Inr (resp,
              db_two\<lparr>polls := polls db_two @
                   [\<lparr>oid_p = next_oid db_two, id_p = str ''p2'', question = str ''Q'',
                     options = [str ''X'', str ''Y''], category = Some (str ''Zoo''), created_at = str ''t2'',
                     expires_at = JNull, status = str ''active'', closed_at = None\<rparr>],
                next_oid := Suc (next_oid db_two)\<rparr>)"
    using create_validation[of "JNull" "str ''p2''" "str ''t2''" db_two "JNull"
        "JStr (str '' Zoo '')" JUndefined "str '' Q ''" "[]" "[str '' X'', str ''Y '']" "str '' Zoo ''"]
    by (simp add: tr)
  then obtain resp where "create (str ''p2'') (str ''t2'') db_two (JStr (str '' Q '')) (JArr (map JStr [str '' X'', str ''Y '']))
           (JStr (str '' Zoo '')) JUndefined =
         Inr (resp,
              db_two\<lparr>polls := polls db_two @
                   [\<lparr>oid_p = next_oid db_two, id_p = str ''p2'', question = str ''Q'',
                     options = [str ''X'', str ''Y''], category = Some (str ''Zoo''), created_at = str ''t2'',
                     expires_at = JNull, status = str ''active'', closed_at = None\<rparr>],
                next_oid := Suc (next_oid db_two)\<rparr>)" ..
  then have c5: "map_sum id (polls \<circ> snd)
     (create (str ''p2'') (str ''t2'') db_two (JStr (str '' Q '')) (JArr (map JStr [str '' X'', str ''Y '']))
        (JStr (str '' Zoo '')) JUndefined) =
     Inr [poll_AB,
          \<lparr>oid_p = 3, id_p = str ''p2'', question = str ''Q'', options = [str ''X'', str ''Y''],
            category = Some (str ''Zoo''), created_at = str ''t2'', expires_at = JNull,
            status = str ''active'', closed_at = None\<rparr>]"
    by (simp add: db_two_def)
  have "\<exists>resp. create (str ''p2'') (str ''t2'') db_two (JStr (str '' Q '')) (JArr (map JStr [str '' X'', str ''Y '']))
           (JStr (str ''  '')) JUndefined =
         Inr (resp,
              db_two\<lparr>polls := polls db_two @
                   [\<lparr>oid_p = next_oid db_two, id_p = str ''p2'', question = str ''Q'',
                     options = [str ''X'', str ''Y''], category = Some (str ''General''), created_at = str ''t2'',
                     expires_at = JNull, status = str ''active'', closed_at = None\<rparr>],
                next_oid := Suc (next_oid db_two)\<rparr>)"
    using create_validation[of "JNull" "str ''p2''" "str ''t2''" db_two "JNull"
        "JStr (str ''  '')" JUndefined "str '' Q ''" "[]" "[str '' X'', str ''Y '']" "str ''  ''"]
    by (simp add: tr)
  then obtain resp where "create (str ''p2'') (str ''t2'') db_two (JStr (str '' Q '')) (JArr (map JStr [str '' X'', str ''Y '']))
           (JStr (str ''  '')) JUndefined =
         Inr (resp,
              db_two\<lparr>polls := polls db_two @
                   [\<lparr>oid_p = next_oid db_two, id_p = str ''p2'', question = str ''Q'',
                     options = [str ''X'', str ''Y''], category = Some (str ''General''), created_at = str ''t2'',
                     expires_at = JNull, status = str ''active'', closed_at = None\<rparr>],
                next_oid := Suc (next_oid db_two)\<rparr>)" ..
  then have c6: "map_sum id (map category \<circ> polls \<circ> snd)
     (create (str ''p2'') (str ''t2'') db_two (JStr (str '' Q '')) (JArr (map JStr [str '' X'', str ''Y '']))
        (JStr (str ''  '')) JUndefined) =
     Inr [Some (str ''General''), Some (str ''General'')]"
    by (simp add: db_two_def poll_AB_def)
  from c1 c2 c3 c4 c5 c6 show ?thesis by blast
qed

section \<open>The categories\<close>

















section \<open>The percentages\<close>

text \<open>Two doubles as the runtime prints them: \<^verbatim>\<open>0.1\<close> and \<^verbatim>\<open>23 / 40 * 100\<close>.\<close>

lemma fl_tenth: "fl (1 / 10) = 3602879701896397 / 2 ^ 55"
  by code_simp

lemma fl_23_40: "fl (fl (23 / 40) * 100) = 8092405580431359 / 2 ^ 47"
  by code_simp

lemma round_even_err: "\<bar>of_int (round_even y) - y\<bar> \<le> 1 / 2"
proof -
  have "of_int \<lfloor>y\<rfloor> \<le> y" "y < of_int \<lfloor>y\<rfloor> + 1" by linarith+
  then show ?thesis by (auto simp: round_even_def Let_def)
qed

lemma bitlen_ge1: "0 < a \<Longrightarrow> 1 \<le> bitlen a"
  by (simp add: bitlen_alt_def)

lemma expo_le:
  assumes "0 < x"
  shows "2 powi (expo x) \<le> x"
proof -
  obtain p q where pq: "quotient_of x = (p, q)" by force
  have q: "0 < q" by (rule quotient_of_denom_pos[OF pq])
  have x: "x = of_int p / of_int q" by (rule quotient_of_div[OF pq])
  have p: "0 < p" using assms q by (simp add: x zero_less_divide_iff)
  let ?e = "bitlen p - bitlen q"
  show ?thesis
  proof (cases "2 powi ?e \<le> x")
    case True
    then show ?thesis by (simp add: expo_def pq Let_def)
  next
    case False
    have bp: "1 \<le> bitlen p" and bq: "1 \<le> bitlen q"
      using p q by (simp_all add: bitlen_ge1)
    have "2 ^ nat (bitlen p - 1) \<le> p" using bitlen_bounds[OF p] by simp
    then have lp: "(2::rat) ^ nat (bitlen p - 1) \<le> of_int p"
      by (metis of_int_le_iff of_int_numeral of_int_power)
    have "q < 2 ^ nat (bitlen q)" using bitlen_bounds[OF q] by simp
    then have "of_int q < (2::rat) ^ nat (bitlen q)"
      by (metis of_int_less_iff of_int_numeral of_int_power)
    then have lq: "of_int q \<le> (2::rat) ^ nat (bitlen q)" by simp
    have "(2::rat) powi (?e - 1) = 2 powi (bitlen p - 1) / 2 powi bitlen q"
      by (simp add: power_int_diff)
    also have "\<dots> = 2 ^ nat (bitlen p - 1) / 2 ^ nat (bitlen q)"
      using bp bq by (simp add: power_int_nonneg_exp)
    also have "\<dots> \<le> of_int p / of_int q"
      using lp lq q p by (intro frac_le) simp_all
    finally have "(2::rat) powi (?e - 1) \<le> x" by (simp add: x)
    with False show ?thesis by (simp add: expo_def pq Let_def)
  qed
qed

lemma fl_pos_eq:
  "0 < x \<Longrightarrow> fl x = of_int (round_even (x / 2 powi (expo x - 52))) * 2 powi (expo x - 52)"
  by (simp add: fl_def Let_def)

lemma fl_err:
  assumes "0 < x"
  shows "\<bar>fl x - x\<bar> \<le> x / 2 ^ 53"
proof -
  let ?s = "(2::rat) powi (expo x - 52)"
  let ?y = "x / ?s"
  have s: "0 < ?s" by simp
  have xs: "x = ?y * ?s" by simp
  have "fl x - x = (of_int (round_even ?y) - ?y) * ?s"
    by (simp add: fl_pos_eq[OF assms] algebra_simps)
  then have "\<bar>fl x - x\<bar> = \<bar>of_int (round_even ?y) - ?y\<bar> * ?s"
    by (simp add: abs_mult)
  also have "\<dots> \<le> 1 / 2 * ?s"
    using round_even_err[of ?y] s by (intro mult_right_mono) simp_all
  also have "\<dots> = 2 powi (expo x) / 2 ^ 53"
    by (simp add: power_int_diff)
  also have "\<dots> \<le> x / 2 ^ 53"
    using expo_le[OF assms] by (simp add: divide_right_mono)
  finally show ?thesis .
qed

lemma fl_pos: "0 < x \<Longrightarrow> 0 < fl x"
proof -
  assume x: "0 < x"
  have "x / 2 ^ 53 < x" using x by (simp add: field_simps)
  with fl_err[OF x] show ?thesis by linarith
qed

lemma fl_zero: "fl 0 = 0"
  by (simp add: fl_def)

lemma percent_near:
  fixes c t :: nat
  assumes t: "0 < t" and ct: "c \<le> t" and t1000: "t \<le> 1000"
  shows "\<bar>of_int \<lfloor>fl (fl (of_nat c / of_nat t) * 100) + 1 / 2\<rfloor> - 100 * of_nat c / (of_nat t :: rat)\<bar>
         \<le> 1 / 2"
proof (cases "c = 0")
  case True
  have "\<lfloor>1 / 2 :: rat\<rfloor> = 0" by (rule floor_unique) simp_all
  with True show ?thesis by (simp add: fl_zero)
next
  case False
  then have c: "0 < c" by simp
  let ?T = "of_nat t :: rat"
  let ?C = "of_nat c :: rat"
  let ?q = "?C / ?T"
  let ?z = "100 * ?C / ?T"
  let ?y = "fl ?q * 100"
  let ?n = "\<lfloor>fl ?y + 1 / 2\<rfloor>"
  let ?N = "of_int ?n :: rat"
  have T: "0 < ?T" "?T \<le> 1000" using t t1000 by simp_all
  have q0: "0 < ?q" using c t by simp
  have q1: "?q \<le> 1" using ct t by simp
  have e1: "\<bar>fl ?q - ?q\<bar> \<le> ?q / 2 ^ 53" by (rule fl_err[OF q0])
  have "?q / 2 ^ 53 \<le> 1 / 2 ^ 53" using q1 by (simp add: divide_right_mono)
  with e1 have e1': "\<bar>fl ?q - ?q\<bar> \<le> 1 / 2 ^ 53" by linarith
  have y0: "0 < ?y" using fl_pos[OF q0] by simp
  have zq: "?z = 100 * ?q" by simp
  have yz: "\<bar>?y - ?z\<bar> \<le> 100 / 2 ^ 53" using e1' unfolding zq by linarith
  have z100: "?z \<le> 100" using q1 unfolding zq by linarith
  have k: "(100::rat) / 2 ^ 53 \<le> 1" by simp
  have y101: "?y \<le> 101" using yz z100 k by linarith
  have e2: "\<bar>fl ?y - ?y\<bar> \<le> ?y / 2 ^ 53" by (rule fl_err[OF y0])
  have "?y / 2 ^ 53 \<le> 101 / 2 ^ 53" using y101 by (simp add: divide_right_mono)
  with e2 have e2': "\<bar>fl ?y - ?y\<bar> \<le> 101 / 2 ^ 53" by linarith
  have close: "\<bar>fl ?y - ?z\<bar> \<le> 201 / 2 ^ 53" using yz e2' by linarith
  have fl1: "?N \<le> fl ?y + 1 / 2" and fl2: "fl ?y + 1 / 2 < ?N + 1" by linarith+
  have lo: "?N - 1 / 2 - 201 / 2 ^ 53 \<le> ?z" using close fl2 by linarith
  have hi: "?z < ?N + 1 / 2 + 201 / 2 ^ 53" using close fl1 by linarith
  have zT: "?z * ?T = 100 * ?C" using T by simp
  have eT: "201 / 2 ^ 53 * ?T < 1 / 2"
  proof -
    have "201 / 2 ^ 53 * ?T \<le> 201 / 2 ^ 53 * 1000"
      using T by (intro mult_left_mono) simp_all
    also have "\<dots> < 1 / 2" by simp
    finally show ?thesis .
  qed
  have "(?N - 1 / 2 - 201 / 2 ^ 53) * ?T \<le> ?z * ?T"
    using lo T by (intro mult_right_mono) simp_all
  then have "?N * ?T - ?T / 2 - 201 / 2 ^ 53 * ?T \<le> 100 * ?C"
    unfolding zT by (simp add: algebra_simps)
  with eT have lo_r: "2 * ?N * ?T - ?T - 1 < 200 * ?C" by linarith
  have "?z * ?T < (?N + 1 / 2 + 201 / 2 ^ 53) * ?T"
    using hi T by (intro mult_strict_right_mono) simp_all
  then have "100 * ?C < ?N * ?T + ?T / 2 + 201 / 2 ^ 53 * ?T"
    unfolding zT by (simp add: algebra_simps)
  with eT have hi_r: "200 * ?C < 2 * ?N * ?T + ?T + 1" by linarith
  have "(of_int (2 * ?n * int t - int t - 1) :: rat) < of_int (200 * int c)"
    using lo_r by simp
  then have "2 * ?n * int t - int t - 1 < 200 * int c" by (simp only: of_int_less_iff)
  then have lo_i: "2 * ?n * int t - int t \<le> 200 * int c" by linarith
  have "(of_int (200 * int c) :: rat) < of_int (2 * ?n * int t + int t + 1)"
    using hi_r by simp
  then have "200 * int c < 2 * ?n * int t + int t + 1" by (simp only: of_int_less_iff)
  then have hi_i: "200 * int c \<le> 2 * ?n * int t + int t" by linarith
  have "(of_int (2 * ?n * int t - int t) :: rat) \<le> of_int (200 * int c)"
    using lo_i by (simp only: of_int_le_iff)
  then have lo_q: "2 * ?N * ?T - ?T \<le> 200 * ?C" by simp
  have "(of_int (200 * int c) :: rat) \<le> of_int (2 * ?n * int t + int t)"
    using hi_i by (simp only: of_int_le_iff)
  then have hi_q: "200 * ?C \<le> 2 * ?N * ?T + ?T" by simp
  have "?N - 1 / 2 \<le> ?z"
  proof -
    have "(?N - 1 / 2) * ?T \<le> 100 * ?C" using lo_q by (simp add: algebra_simps)
    then have "(?N - 1 / 2) \<le> 100 * ?C / ?T" using T by (simp add: pos_le_divide_eq)
    then show ?thesis by simp
  qed
  moreover have "?z \<le> ?N + 1 / 2"
  proof -
    have "100 * ?C \<le> (?N + 1 / 2) * ?T" using hi_q by (simp add: algebra_simps)
    then have "100 * ?C / ?T \<le> ?N + 1 / 2" using T by (simp add: pos_divide_le_eq)
    then show ?thesis by simp
  qed
  ultimately show ?thesis by linarith
qed

lemma percentage_eq:
  "percentage vc t opt =
   (if t = 0 then Num 0
    else case obj_get vc opt of
      Own (Count c) \<Rightarrow> Num (of_int \<lfloor>fl (fl (of_nat c / of_nat t) * 100) + 1 / 2\<rfloor>)
    | _ \<Rightarrow> NaN)"
  by (simp add: percentage_def split: lookup.splits cell.splits)

lemma map_of_votePercentages_gen:
  "map_of (fold (\<lambda>opt vp. obj_set vp opt (f opt)) opts acc) k =
   (if k \<in> set opts \<and> k \<noteq> str ''__proto__'' then Some (f k) else map_of acc k)"
  by (induction opts arbitrary: acc) (auto simp: map_of_obj_set)

lemma map_of_votePercentages:
  "map_of (votePercentages opts vc t) k =
   (if k \<in> set opts \<and> k \<noteq> str ''__proto__'' then Some (percentage vc t k) else None)"
  by (simp add: votePercentages_def map_of_votePercentages_gen)

lemma keys_votePercentages:
  "set (map fst (votePercentages opts vc t)) = set opts - {str ''__proto__''}"
proof -
  have "set (map fst (votePercentages opts vc t)) = dom (map_of (votePercentages opts vc t))"
    by (simp add: dom_map_of_conv_image_fst)
  also have "\<dots> = set opts - {str ''__proto__''}"
    by (auto simp: map_of_votePercentages dom_def)
  finally show ?thesis .
qed

text \<open>
  C7 (as amended). With no votes returned every percentage is 0 and no division is
  evaluated. Otherwise the percentages have as keys the declared options other than
  \<^verbatim>\<open>__proto__\<close>, and each is an integer between 0 and 100 that differs from
  \<open>100 * count / total\<close> by at most one half: a nearest integer. No percentage is \<^verbatim>\<open>NaN\<close> or
  infinite, which is what a division by zero would give. When \<open>100 * count / total\<close> lies
  half-way between two integers, the rounding errors of \<^verbatim>\<open>(count / total) * 100\<close> in double
  precision decide which of the two is returned.
\<close>

theorem percentages_nearest:
  "percentage vc 0 k = Num 0 \<and>
   (findOne d i = Inr r \<longrightarrow>
      set (map fst (vote_percentages r)) = set (options (the_poll r)) - {str ''__proto__''} \<and>
      (k \<in> set (options (the_poll r)) \<and> k \<noteq> str ''__proto__'' \<longrightarrow>
         (\<exists>n c. map_of (vote_percentages r) k = Some (Num (of_int n)) \<and>
                map_of (vote_counts r) k = Some (Count c) \<and>
                0 \<le> n \<and> n \<le> 100 \<and>
                (total_votes r = 0 \<longrightarrow> n = 0) \<and>
                (0 < total_votes r \<longrightarrow>
                   \<bar>of_int n - 100 * of_nat c / (of_nat (total_votes r) :: rat)\<bar> \<le> 1 / 2))))"
proof -
  have zero: "percentage vc 0 k = Num 0" by (simp add: percentage_def)
  have main: "set (map fst (vote_percentages r)) = set (options (the_poll r)) - {str ''__proto__''} \<and>
      (k \<in> set (options (the_poll r)) \<and> k \<noteq> str ''__proto__'' \<longrightarrow>
         (\<exists>n c. map_of (vote_percentages r) k = Some (Num (of_int n)) \<and>
                map_of (vote_counts r) k = Some (Count c) \<and>
                0 \<le> n \<and> n \<le> 100 \<and>
                (total_votes r = 0 \<longrightarrow> n = 0) \<and>
                (0 < total_votes r \<longrightarrow>
                   \<bar>of_int n - 100 * of_nat c / (of_nat (total_votes r) :: rat)\<bar> \<le> 1 / 2)))"
    if f: "findOne d i = Inr r"
  proof -
    from f obtain p where g: "get_poll d i = Some p"
      by (cases "get_poll d i") (simp_all add: findOne_eq)
    define vs where "vs = take 1000 (findByPoll d i)"
    define t where "t = length vs"
    let ?vs = vs
    let ?t = t
    let ?vc = "voteCounts (options p) ?vs"
    from f g have r: "the_poll r = p" "total_votes r = ?t" "vote_counts r = ?vc"
      "vote_percentages r = votePercentages (options p) ?vc ?t"
      by (auto simp: findOne_eq vs_def t_def)
    have t1000: "?t \<le> 1000" by (simp add: vs_def t_def)
    have keys: "set (map fst (vote_percentages r)) = set (options (the_poll r)) - {str ''__proto__''}"
      by (simp only: r keys_votePercentages)
    have each: "\<exists>n c. map_of (vote_percentages r) k = Some (Num (of_int n)) \<and>
                map_of (vote_counts r) k = Some (Count c) \<and>
                0 \<le> n \<and> n \<le> 100 \<and>
                (total_votes r = 0 \<longrightarrow> n = 0) \<and>
                (0 < total_votes r \<longrightarrow>
                   \<bar>of_int n - 100 * of_nat c / (of_nat (total_votes r) :: rat)\<bar> \<le> 1 / 2)"
      if k: "k \<in> set (options (the_poll r))" and np: "k \<noteq> str ''__proto__''"
    proof -
      let ?c = "length (filter (\<lambda>v. option v = k) ?vs)"
      from k np have cnt: "map_of ?vc k = Some (Count ?c)" by (simp add: r map_of_voteCounts)
      then have get: "obj_get ?vc k = Own (Count ?c)" by (rule obj_get_Own)
      from k np have pct: "map_of (vote_percentages r) k = Some (percentage ?vc ?t k)"
        by (simp add: r map_of_votePercentages)
      show ?thesis
      proof (cases "?t = 0")
        case True
        have "percentage ?vc ?t k = Num (of_int 0)"
          using True by (simp add: percentage_eq)
        with pct cnt True show ?thesis
          by (intro exI[of _ 0] exI[of _ ?c]) (simp add: r)
      next
        case False
        let ?n = "\<lfloor>fl (fl (of_nat ?c / of_nat ?t) * 100) + 1 / 2\<rfloor>"
        have t0: "0 < ?t" using False by simp
        have ct: "?c \<le> ?t" unfolding t_def by (rule length_filter_le)
        have near: "\<bar>of_int ?n - 100 * of_nat ?c / (of_nat ?t :: rat)\<bar> \<le> 1 / 2"
          by (rule percent_near[OF t0 ct t1000])
        have z0: "0 \<le> 100 * of_nat ?c / (of_nat ?t :: rat)" by simp
        have "of_nat ?c / (of_nat ?t :: rat) \<le> 1" using ct t0 by simp
        then have z100: "100 * of_nat ?c / (of_nat ?t :: rat) \<le> 100" by simp
        from near z0 have "(-1 :: rat) < of_int ?n" by linarith
        then have "(of_int (-1) :: rat) < of_int ?n" by simp
        then have "-1 < ?n" by (simp only: of_int_less_iff)
        then have n0: "0 \<le> ?n" by linarith
        from near z100 have "of_int ?n < (101 :: rat)" by linarith
        then have "(of_int ?n :: rat) < of_int 101" by simp
        then have "?n < 101" by (simp only: of_int_less_iff)
        then have n100: "?n \<le> 100" by linarith
        have "percentage ?vc ?t k = Num (of_int ?n)"
          using False get by (simp add: percentage_eq)
        with pct cnt n0 n100 near False show ?thesis
          by (intro exI[of _ ?n] exI[of _ ?c]) (simp add: r)
      qed
    qed
    from keys each show ?thesis by blast
  qed
  from zero main show ?thesis by blast
qed

lemma findOne_23_17:
  "findOne (db_votes 23 17) (str ''p1'') =
     Inr \<lparr>the_poll = poll_AB, total_votes = 40,
          vote_counts = [(str ''A'', Count 23), (str ''B'', Count 17)],
          vote_percentages = [(str ''A'', Num 57), (str ''B'', Num 43)]\<rparr>"
  by code_simp

lemma findOne_1_7:
  "findOne (db_votes 1 7) (str ''p1'') =
     Inr \<lparr>the_poll = poll_AB, total_votes = 8,
          vote_counts = [(str ''A'', Count 1), (str ''B'', Count 7)],
          vote_percentages = [(str ''A'', Num 13), (str ''B'', Num 88)]\<rparr>"
  by code_simp

theorem percentages_nearest_counterexample:
  "findOne (db_votes 23 17) (str ''p1'') =
     Inr \<lparr>the_poll = poll_AB, total_votes = 40,
          vote_counts = [(str ''A'', Count 23), (str ''B'', Count 17)],
          vote_percentages = [(str ''A'', Num 57), (str ''B'', Num 43)]\<rparr> \<and>
   round (100 * 23 / 40 :: rat) = 58 \<and>
   findOne (db_votes 1 7) (str ''p1'') =
     Inr \<lparr>the_poll = poll_AB, total_votes = 8,
          vote_counts = [(str ''A'', Count 1), (str ''B'', Count 7)],
          vote_percentages = [(str ''A'', Num 13), (str ''B'', Num 88)]\<rparr> \<and>
   round_even (100 * 1 / 8) = 12"
proof -
  have a: "round (100 * 23 / 40 :: rat) = 58"
    unfolding round_def by (rule floor_unique) simp_all
  have b: "round_even (100 * 1 / 8) = 12"
    by code_simp
  from findOne_23_17 findOne_1_7 a b show ?thesis by blast
qed

theorem percentages_nearest_witness:
  "findOne db_two (str ''p1'') =
     Inr \<lparr>the_poll = poll_AB, total_votes = 2,
          vote_counts = [(str ''A'', Count 1), (str ''B'', Count 1)],
          vote_percentages = [(str ''A'', Num 50), (str ''B'', Num 50)]\<rparr> \<and>
   (\<exists>n c. map_of [(str ''A'', Num 50), (str ''B'', Num 50)] (str ''A'') = Some (Num (of_int n)) \<and>
          map_of [(str ''A'', Count 1), (str ''B'', Count 1)] (str ''A'') = Some (Count c) \<and>
          0 \<le> n \<and> n \<le> 100 \<and>
          \<bar>of_int n - 100 * of_nat c / (2 :: rat)\<bar> \<le> 1 / 2)"
proof -
  have k: "str ''A'' \<in> set (options poll_AB) \<and> str ''A'' \<noteq> str ''__proto__''" by (simp add: poll_AB_def)
  from percentages_nearest[of "[]" "str ''A''" db_two "str ''p1''"
      "\<lparr>the_poll = poll_AB, total_votes = 2,
          vote_counts = [(str ''A'', Count 1), (str ''B'', Count 1)],
          vote_percentages = [(str ''A'', Num 50), (str ''B'', Num 50)]\<rparr>"] findOne_two k
  show ?thesis by simp
qed

end
